theory Spec2Isabelle
  imports Complex_Main
begin

section \<open>The secure static server of Bubbles-AI-GPT (server.py)\<close>

text \<open>
  A shallow embedding of \<^verbatim>\<open>SecurityHTTPRequestHandler\<close>. The module-level dictionaries
  become a record that every operation takes and returns; \<^verbatim>\<open>send_error\<close> and
  \<^verbatim>\<open>send_response\<close> become the response value a handler ends with; an exception that
  leaves a handler is the outcome \<open>Unhandled\<close>. Python strings are \<open>string\<close>, one
  \<open>char\<close> per character of the request line and headers (http.server reads both as
  Latin-1), and \<^verbatim>\<open>time.time()\<close> is a \<open>real\<close>.
\<close>

subsection \<open>Constants\<close>

definition MAX_CONTENT_LENGTH :: int where
  "MAX_CONTENT_LENGTH = 10 * 1024 * 1024"

definition RATE_LIMIT_WINDOW :: real where
  "RATE_LIMIT_WINDOW = 60"

definition RATE_LIMIT_MAX_REQUESTS :: nat where
  "RATE_LIMIT_MAX_REQUESTS = 100"

definition ALLOWED_EXTENSIONS :: "string list" where
  "ALLOWED_EXTENSIONS =
     [''.html'', ''.js'', ''.css'', ''.json'', ''.txt'', ''.ico'', ''.svg'', ''.png'',
      ''.jpg'', ''.jpeg'', ''.gif'', ''.woff'', ''.woff2'', ''.ttf'', ''.eot'']"

definition BLOCKED_PATHS :: "string list" where
  "BLOCKED_PATHS = [''..'', ''.env'', ''.git'', ''__pycache__'', ''.vscode'', ''node_modules'']"

subsection \<open>Exceptions and the pieces of Python the handler calls\<close>

datatype py_error = ValueError | OSError | TypeError

text \<open>
  \<^verbatim>\<open>log_message(format)\<close> evaluates \<^verbatim>\<open>format % args\<close> with \<^verbatim>\<open>args = ()\<close>, because
  every call in server.py passes one already interpolated f-string. With an empty
  argument tuple the \<^verbatim>\<open>%\<close> operator (CPython 3.11, 64-bit) copies the text and turns
  \<^verbatim>\<open>%%\<close> into \<^verbatim>\<open>%\<close>; every other \<^verbatim>\<open>%\<close> starts a directive that raises. The
  directive is still parsed (mapping key, flags, width, precision, length letter,
  conversion), which decides the exception: ValueError for an unfinished directive or an
  oversized width or precision, TypeError for a mapping key, a \<^verbatim>\<open>*\<close> or any conversion,
  which all ask for an argument that is not there.
\<close>

definition is_digit :: "char \<Rightarrow> bool" where
  "is_digit c = (48 \<le> (of_char c :: nat) \<and> (of_char c :: nat) \<le> 57)"

definition is_flag :: "char \<Rightarrow> bool" where
  "is_flag c = (c \<in> set ''-+ #0'')"

fun digits_value :: "int \<Rightarrow> string \<Rightarrow> int" where
  "digits_value acc [] = acc"
| "digits_value acc (c # cs) = digits_value (acc * 10 + (of_char c - 48)) cs"

definition directive_conv :: "string \<Rightarrow> py_error" where
  "directive_conv r =
     (case r of
        [] \<Rightarrow> ValueError
      | c # t \<Rightarrow> if c \<in> set ''hlL'' \<and> t = [] then ValueError else TypeError)"

definition directive_prec :: "string \<Rightarrow> py_error" where
  "directive_prec r =
     (case r of
        [] \<Rightarrow> ValueError
      | c # t \<Rightarrow>
          if c = CHR ''.'' then
            (case t of
               [] \<Rightarrow> ValueError
             | c' # _ \<Rightarrow>
                 if c' = CHR ''*'' then TypeError
                 else if digits_value 0 (takeWhile is_digit t) > 2 ^ 31 - 1 then ValueError
                 else directive_conv (dropWhile is_digit t))
          else directive_conv r)"

definition directive_error :: "string \<Rightarrow> py_error" where
  "directive_error cs =
     (case cs of
        [] \<Rightarrow> ValueError
      | c # _ \<Rightarrow>
          if c = CHR ''('' then TypeError
          else
            (case dropWhile is_flag cs of
               [] \<Rightarrow> ValueError
             | c1 # t1 \<Rightarrow>
                 if c1 = CHR ''*'' then TypeError
                 else if digits_value 0 (takeWhile is_digit (c1 # t1)) > 2 ^ 63 - 1
                 then ValueError
                 else directive_prec (dropWhile is_digit (c1 # t1))))"

fun py_format :: "string \<Rightarrow> py_error + string" where
  "py_format [] = Inr []"
| "py_format (c # cs) =
     (if c = CHR ''%'' then
        (case cs of
           [] \<Rightarrow> Inl (directive_error cs)
         | d # rest \<Rightarrow>
             if d = CHR ''%'' then
               (case py_format rest of Inl e \<Rightarrow> Inl e | Inr out \<Rightarrow> Inr (CHR ''%'' # out))
             else Inl (directive_error cs))
      else
        (case py_format cs of Inl e \<Rightarrow> Inl e | Inr out \<Rightarrow> Inr (c # out)))"

text \<open>The decimal text of a status code inside an f-string.\<close>

fun str_nat :: "nat \<Rightarrow> string" where
  "str_nat n =
     (if n < 10 then [char_of (48 + n)]
      else str_nat (n div 10) @ [char_of (48 + n mod 10)])"

declare str_nat.simps [simp del]

text \<open>
  \<^verbatim>\<open>int(s)\<close> on a header value: surrounding whitespace is dropped, one sign is
  allowed, then decimal digits with single underscores between them; anything else is
  ValueError, and so is a literal of more than 4300 digits (CPython 3.11 and later).
\<close>

definition is_space :: "char \<Rightarrow> bool" where
  "is_space c = ((of_char c :: nat) \<in> {9, 10, 11, 12, 13, 32, 133, 160})"

definition strip :: "string \<Rightarrow> string" where
  "strip s = rev (dropWhile is_space (rev (dropWhile is_space s)))"

fun valid_digits :: "string \<Rightarrow> bool" where
  "valid_digits [] = False"
| "valid_digits [c] = is_digit c"
| "valid_digits (c # d # cs) =
     (is_digit c \<and> (if d = CHR ''_'' then valid_digits cs else valid_digits (d # cs)))"

definition int_digits :: "string \<Rightarrow> py_error + int" where
  "int_digits body =
     (if valid_digits body \<and> length (filter is_digit body) \<le> 4300
      then Inr (digits_value 0 (filter is_digit body))
      else Inl ValueError)"

definition py_int :: "string \<Rightarrow> py_error + int" where
  "py_int s =
     (case strip s of
        [] \<Rightarrow> Inl ValueError
      | c # r \<Rightarrow>
          if c = CHR ''-'' then
            (case int_digits r of Inl e \<Rightarrow> Inl e | Inr v \<Rightarrow> Inr (- v))
          else if c = CHR ''+'' then int_digits r
          else int_digits (c # r))"

text \<open>\<^verbatim>\<open>s.endswith(suffix)\<close> and \<^verbatim>\<open>s.endswith((suffix, ...))\<close>.\<close>

definition endswith :: "string \<Rightarrow> string \<Rightarrow> bool" where
  "endswith s suf = (length suf \<le> length s \<and> drop (length s - length suf) s = suf)"

definition endswith_any :: "string \<Rightarrow> string list \<Rightarrow> bool" where
  "endswith_any s sufs = list_ex (endswith s) sufs"

subsection \<open>Requests, responses and the shared state\<close>

text \<open>
  What a handler reads of its request: \<^verbatim>\<open>self.client_address[0]\<close>, \<^verbatim>\<open>self.path\<close>, and
  the two headers it looks up. \<open>None\<close> is a header that was not sent.
\<close>

record request =
  client_ip :: string
  path :: string
  content_length :: "string option"
  user_agent :: "string option"

text \<open>
  A response as server.py determines it: the status and message given to
  \<^verbatim>\<open>send_response\<close> or \<^verbatim>\<open>send_error\<close>, the headers sent by \<^verbatim>\<open>send_header\<close> calls in their
  order (the headers the standard library adds by itself, such as Server and Date, are
  not listed), and the bytes written to \<^verbatim>\<open>wfile\<close>.
\<close>

record response =
  status :: nat
  message :: "string option"
  headers :: "(string \<times> string) list"
  body :: string

text \<open>
  The module-level \<^verbatim>\<open>request_counts\<close> and \<^verbatim>\<open>blocked_ips\<close>, the lines printed by
  \<^verbatim>\<open>log_message\<close> calls of server.py (client and text), and whether the thread running
  \<^verbatim>\<open>self.server.shutdown\<close> has been started.
\<close>

record server =
  request_counts :: "string \<rightharpoonup> real list"
  blocked_ips :: "string set"
  log :: "(string \<times> string) list"
  shutdown_started :: bool

definition initial_server :: server where
  "initial_server =
     \<lparr>request_counts = Map.empty, blocked_ips = {}, log = [], shutdown_started = False\<rparr>"

text \<open>
  How a handler invocation ends: a response was sent, or an exception left the handler
  (socketserver then prints the traceback and closes the connection: the client gets no
  response, the process keeps running).
\<close>

datatype outcome = Responded response | Unhandled py_error

subsection \<open>log_message, end_headers, send_error\<close>

definition log_message :: "request \<Rightarrow> string \<Rightarrow> server \<Rightarrow> py_error + server" where
  "log_message r format s =
     (case py_format format of
        Inl e \<Rightarrow> Inl e
      | Inr text \<Rightarrow> Inr (s\<lparr>log := log s @ [(client_ip r, text)]\<rparr>))"

definition csp :: string where
  "csp = ''default-src 'self'; ''
       @ ''script-src 'self' 'unsafe-inline' https://js.puter.com; ''
       @ ''style-src 'self' 'unsafe-inline'; ''
       @ ''connect-src 'self' https: wss:; ''
       @ ''img-src 'self' data: https:; ''
       @ ''font-src 'self' data:; ''
       @ ''object-src 'none'; ''
       @ ''base-uri 'self'; ''
       @ ''form-action 'self'' @ [CHR 0x27]"

definition CACHED_SUFFIXES :: "string list" where
  "CACHED_SUFFIXES = [''.css'', ''.js'', ''.png'', ''.jpg'', ''.ico'', ''.woff'', ''.woff2'']"

definition cache_control :: "string \<Rightarrow> string" where
  "cache_control p =
     (if endswith_any p CACHED_SUFFIXES then ''public, max-age=3600''
      else ''no-cache, no-store, must-revalidate'')"

definition end_headers :: "request \<Rightarrow> (string \<times> string) list" where
  "end_headers r =
     [(''Access-Control-Allow-Origin'', ''*''),
      (''Access-Control-Allow-Methods'', ''GET, POST, OPTIONS''),
      (''Access-Control-Allow-Headers'', ''Content-Type, Authorization''),
      (''Access-Control-Max-Age'', ''86400''),
      (''X-Content-Type-Options'', ''nosniff''),
      (''X-Frame-Options'', ''DENY''),
      (''X-XSS-Protection'', ''1; mode=block''),
      (''Referrer-Policy'', ''strict-origin-when-cross-origin''),
      (''Permissions-Policy'', ''geolocation=(), microphone=(), camera=()''),
      (''Content-Security-Policy'', csp),
      (''Cache-Control'', cache_control (path r))]"

text \<open>
  \<^verbatim>\<open>send_error\<close>: the log line for codes from 400 on, the fixed public message for 404,
  403 and 500, then the base class's \<^verbatim>\<open>send_error\<close>, which sends the status line and
  calls \<^verbatim>\<open>self.end_headers()\<close>. The HTML error page the base class writes is not
  modelled: \<open>body\<close> is empty.
\<close>

definition send_error :: "request \<Rightarrow> nat \<Rightarrow> string \<Rightarrow> server \<Rightarrow> server \<times> outcome" where
  "send_error r code msg s =
     (let logged =
            (if code \<ge> 400
             then log_message r
                    (''ERROR '' @ str_nat code @ '': '' @ (if msg = [] then ''Unknown error'' else msg)) s
             else Inr s);
          msg' =
            (if code = 404 then ''Not Found''
             else if code = 403 then ''Forbidden''
             else if code = 500 then ''Internal Server Error''
             else msg)
      in case logged of
           Inl e \<Rightarrow> (s, Unhandled e)
         | Inr s' \<Rightarrow>
             (s', Responded \<lparr>status = code, message = Some msg', headers = end_headers r,
                             body = []\<rparr>))"

subsection \<open>sanitize_headers and rate_limit_check\<close>

text \<open>
  Both return \<open>None\<close> where the Python returns True, and the outcome that ends the
  request where it returns False after \<^verbatim>\<open>send_error\<close> (or raises). The 413 is sent
  inside the \<^verbatim>\<open>try\<close>, so a ValueError from it would reach the \<^verbatim>\<open>except\<close> clause too.
\<close>

definition sanitize_headers :: "request \<Rightarrow> server \<Rightarrow> server \<times> outcome option" where
  "sanitize_headers r s =
     (let checked =
            (case content_length r of
               None \<Rightarrow> (s, None)
             | Some cl \<Rightarrow>
                 if cl = [] then (s, None)
                 else
                   (case py_int cl of
                      Inl ValueError \<Rightarrow>
                        (case send_error r 400 ''Invalid Content-Length'' s of
                           (s', out) \<Rightarrow> (s', Some out))
                    | Inl e \<Rightarrow> (s, Some (Unhandled e))
                    | Inr len \<Rightarrow>
                        if len > MAX_CONTENT_LENGTH then
                          (case send_error r 413 ''Request entity too large'' s of
                             (s', Unhandled ValueError) \<Rightarrow>
                               (case send_error r 400 ''Invalid Content-Length'' s' of
                                  (s'', out) \<Rightarrow> (s'', Some out))
                           | (s', out) \<Rightarrow> (s', Some out))
                        else (s, None)))
      in case checked of
           (s1, Some out) \<Rightarrow> (s1, Some out)
         | (s1, None) \<Rightarrow>
             if length (case user_agent r of None \<Rightarrow> [] | Some ua \<Rightarrow> ua) > 500 then
               (case send_error r 400 ''Invalid User-Agent'' s1 of (s2, out) \<Rightarrow> (s2, Some out))
             else (s1, None))"

text \<open>
  \<open>now\<close> is the value of \<^verbatim>\<open>time.time()\<close>. After the pruned list has been stored
  under \<^verbatim>\<open>client_ip\<close> the test \<^verbatim>\<open>client_ip not in request_counts\<close> is always false, so
  the append goes to that list.
\<close>

definition rate_limit_check :: "request \<Rightarrow> real \<Rightarrow> server \<Rightarrow> server \<times> outcome option" where
  "rate_limit_check r now s =
     (let ip = client_ip r in
      if ip \<in> blocked_ips s then
        (case send_error r 429 ''Too Many Requests - IP Blocked'' s of
           (s', out) \<Rightarrow> (s', Some out))
      else
        (let cutoff_time = now - RATE_LIMIT_WINDOW;
             kept = filter (\<lambda>req_time. req_time > cutoff_time)
                      (case request_counts s ip of None \<Rightarrow> [] | Some ts \<Rightarrow> ts);
             s1 = s\<lparr>request_counts := (request_counts s)(ip \<mapsto> kept @ [now])\<rparr>
         in if length (kept @ [now]) > RATE_LIMIT_MAX_REQUESTS then
              (let s2 = s1\<lparr>blocked_ips := insert ip (blocked_ips s1)\<rparr> in
               case log_message r
                      (''SECURITY: Rate limit exceeded for '' @ ip @ '' - IP blocked'') s2 of
                 Inl e \<Rightarrow> (s2, Some (Unhandled e))
               | Inr s3 \<Rightarrow>
                   (case send_error r 429 ''Too Many Requests'' s3 of
                      (s4, out) \<Rightarrow> (s4, Some out)))
            else (s1, None)))"

subsection \<open>is_safe_path\<close>

text \<open>
  The file system is a parameter: \<open>stat p\<close> is what \<^verbatim>\<open>os.stat\<close> finds for
  \<^verbatim>\<open>Path(p)\<close>, symbolic links followed. \<open>Missing\<close> covers the errors that
  \<^verbatim>\<open>Path.exists()\<close> and \<^verbatim>\<open>Path.is_file()\<close> swallow (no such entry, not a directory);
  every other failure is raised, as pathlib does for a permission error.
\<close>

datatype file_kind = Missing | RegularFile | OtherKind

type_synonym filesystem = "string \<Rightarrow> py_error + file_kind"

definition path_exists :: "filesystem \<Rightarrow> string \<Rightarrow> py_error + bool" where
  "path_exists stat p = (case stat p of Inl e \<Rightarrow> Inl e | Inr k \<Rightarrow> Inr (k \<noteq> Missing))"

definition path_is_file :: "filesystem \<Rightarrow> string \<Rightarrow> py_error + bool" where
  "path_is_file stat p = (case stat p of Inl e \<Rightarrow> Inl e | Inr k \<Rightarrow> Inr (k = RegularFile))"

text \<open>\<^verbatim>\<open>s.split(sep)\<close> for a one-character separator: always at least one part.\<close>

fun split_on :: "char \<Rightarrow> string \<Rightarrow> string list" where
  "split_on sep [] = [[]]"
| "split_on sep (c # cs) =
     (if c = sep then [] # split_on sep cs
      else (case split_on sep cs of
              [] \<Rightarrow> [[c]]
            | part # parts \<Rightarrow> (c # part) # parts))"

text \<open>
  \<^verbatim>\<open>Path(p).suffix\<close> on POSIX (pathlib up to Python 3.13): the name is the last
  component that is neither empty nor \<^verbatim>\<open>.\<close>; its suffix starts at the last dot, unless
  that dot is the first or the last character of the name.
\<close>

definition path_name :: "string \<Rightarrow> string" where
  "path_name p =
     (case rev (filter (\<lambda>part. part \<noteq> [] \<and> part \<noteq> ''.'') (split_on CHR ''/'' p)) of
        [] \<Rightarrow> []
      | name # _ \<Rightarrow> name)"

definition name_suffix :: "string \<Rightarrow> string" where
  "name_suffix name =
     (let after = rev (takeWhile (\<lambda>c. c \<noteq> CHR ''.'') (rev name)) in
      if CHR ''.'' \<in> set name \<and> length after + 1 < length name \<and> after \<noteq> []
      then CHR ''.'' # after else [])"

definition path_suffix :: "string \<Rightarrow> string" where
  "path_suffix p = name_suffix (path_name p)"

text \<open>\<^verbatim>\<open>str.lower()\<close>, on the ASCII letters.\<close>

definition lower_char :: "char \<Rightarrow> char" where
  "lower_char c =
     (if 65 \<le> (of_char c :: nat) \<and> (of_char c :: nat) \<le> 90
      then char_of ((of_char c :: nat) + 32) else c)"

definition lower :: "string \<Rightarrow> string" where
  "lower s = map lower_char s"

definition is_safe_path_body :: "filesystem \<Rightarrow> string \<Rightarrow> py_error + bool" where
  "is_safe_path_body stat p =
     (if p = ''/'' \<or> p = [] then Inr True
      else
        (let clean_path = dropWhile (\<lambda>c. c = CHR ''/'') p in
         if clean_path = [] then Inr True
         else
           (let path_parts = split_on CHR ''/'' clean_path in
            if list_ex (\<lambda>blocked. blocked \<in> set path_parts) BLOCKED_PATHS then Inr False
            else
              (case path_exists stat clean_path of
                 Inl e \<Rightarrow> Inl e
               | Inr ex \<Rightarrow>
                   (case (if ex then path_is_file stat clean_path else Inr False) of
                      Inl e \<Rightarrow> Inl e
                    | Inr is_file \<Rightarrow>
                        (let extension = lower (path_suffix clean_path) in
                         if is_file \<and> extension \<noteq> [] \<and> extension \<notin> set ALLOWED_EXTENSIONS
                         then Inr False
                         else if ''..'' \<in> set path_parts then Inr False
                         else Inr True))))))"

text \<open>The \<^verbatim>\<open>except (ValueError, OSError)\<close> clause: any other exception leaves the function.\<close>

definition is_safe_path :: "filesystem \<Rightarrow> string \<Rightarrow> py_error + bool" where
  "is_safe_path stat p =
     (case is_safe_path_body stat p of
        Inl ValueError \<Rightarrow> Inr False
      | Inl OSError \<Rightarrow> Inr False
      | Inl e \<Rightarrow> Inl e
      | Inr b \<Rightarrow> Inr b)"

subsection \<open>The decoded request path\<close>

text \<open>
  \<^verbatim>\<open>urllib.parse.urlparse(self.path).path\<close> (CPython 3.11): leading control characters
  and spaces are dropped, tabs and line breaks removed, a scheme and an authority part
  split off, then the fragment, the query and the parameters of the last segment. What
  \<^verbatim>\<open>urlsplit\<close> accepts as authority (bracketed hosts, normalisation) is the parameter
  \<open>netloc_ok\<close>; an authority it rejects is ValueError.
\<close>

definition is_alpha :: "char \<Rightarrow> bool" where
  "is_alpha c =
     ((65 \<le> (of_char c :: nat) \<and> (of_char c :: nat) \<le> 90) \<or>
      (97 \<le> (of_char c :: nat) \<and> (of_char c :: nat) \<le> 122))"

definition scheme_char :: "char \<Rightarrow> bool" where
  "scheme_char c = (is_alpha c \<or> is_digit c \<or> c \<in> set ''+-.'')"

definition uses_params :: "string list" where
  "uses_params =
     ['''', ''ftp'', ''hdl'', ''prospero'', ''http'', ''imap'', ''https'', ''shttp'',
      ''rtsp'', ''rtspu'', ''sip'', ''sips'', ''mms'', ''sftp'', ''tel'']"

definition split_scheme :: "string \<Rightarrow> string \<times> string" where
  "split_scheme url =
     (let sch = takeWhile (\<lambda>c. c \<noteq> CHR '':'') url in
      if CHR '':'' \<in> set url \<and> sch \<noteq> [] \<and> is_alpha (hd sch) \<and> list_all scheme_char sch
      then (lower sch, drop (length sch + 1) url)
      else ([], url))"

definition split_params :: "string \<Rightarrow> string" where
  "split_params url =
     (let last_seg = rev (takeWhile (\<lambda>c. c \<noteq> CHR ''/'') (rev url));
          dirs = take (length url - length last_seg) url
      in dirs @ takeWhile (\<lambda>c. c \<noteq> CHR '';'') last_seg)"

definition urlparse_path :: "(string \<Rightarrow> bool) \<Rightarrow> string \<Rightarrow> py_error + string" where
  "urlparse_path netloc_ok raw =
     (let url0 = filter (\<lambda>c. c \<notin> set [CHR 0x09, CHR 0x0D, CHR 0x0A])
                   (dropWhile (\<lambda>c. (of_char c :: nat) \<le> 32) raw);
          (scheme, url1) = split_scheme url0;
          has_netloc = (take 2 url1 = ''//'');
          netloc = takeWhile (\<lambda>c. c \<notin> set ''/?#'') (drop 2 url1);
          url2 = (if has_netloc then dropWhile (\<lambda>c. c \<notin> set ''/?#'') (drop 2 url1) else url1);
          url3 = takeWhile (\<lambda>c. c \<noteq> CHR ''?'') (takeWhile (\<lambda>c. c \<noteq> CHR ''#'') url2)
      in if has_netloc \<and> \<not> netloc_ok netloc then Inl ValueError
         else Inr (if scheme \<in> set uses_params then split_params url3 else url3))"

text \<open>
  \<^verbatim>\<open>urllib.parse.unquote\<close>: \<^verbatim>\<open>%\<close> and two hexadecimal digits become one character,
  any other \<^verbatim>\<open>%\<close> stays. Exact where every escape decodes below 0x80; a decoded byte
  from 0x80 on stands for itself here, where Python reads runs of them as UTF-8.
\<close>

definition hex_value :: "char \<Rightarrow> nat option" where
  "hex_value c =
     (let n = (of_char c :: nat) in
      if 48 \<le> n \<and> n \<le> 57 then Some (n - 48)
      else if 65 \<le> n \<and> n \<le> 70 then Some (n - 55)
      else if 97 \<le> n \<and> n \<le> 102 then Some (n - 87)
      else None)"

fun unquote :: "string \<Rightarrow> string" where
  "unquote (c # h1 # h2 # cs) =
     (if c = CHR ''%'' then
        (case (hex_value h1, hex_value h2) of
           (Some a, Some b) \<Rightarrow> char_of (16 * a + b) # unquote cs
         | _ \<Rightarrow> c # unquote (h1 # h2 # cs))
      else c # unquote (h1 # h2 # cs))"
| "unquote cs = cs"

text \<open>The first two statements of \<^verbatim>\<open>do_GET\<close> after the checks: parse, then unquote once.\<close>

definition clean_path_of :: "(string \<Rightarrow> bool) \<Rightarrow> string \<Rightarrow> py_error + string" where
  "clean_path_of ok raw =
     (case urlparse_path ok raw of
        Inl err \<Rightarrow> Inl err
      | Inr parsed_path \<Rightarrow> Inr (unquote parsed_path))"

subsection \<open>The handlers\<close>

text \<open>
  \<^verbatim>\<open>super().do_GET()\<close> is the file-serving collaborator. It ends either with
  \<^verbatim>\<open>send_response(code)\<close>, headers of its own, \<^verbatim>\<open>self.end_headers()\<close> and a body, or
  with \<^verbatim>\<open>self.send_error(code, message)\<close>; both reach the overridden methods above.
\<close>

datatype served = Sent nat "(string \<times> string) list" string | Failed nat string

record env =
  stat :: filesystem
  netloc_ok :: "string \<Rightarrow> bool"
  super_do_GET :: "request \<Rightarrow> served"

definition send_response :: "request \<Rightarrow> nat \<Rightarrow> (string \<times> string) list \<Rightarrow> string \<Rightarrow> outcome" where
  "send_response r code hdrs content =
     Responded \<lparr>status = code, message = None, headers = hdrs @ end_headers r, body = content\<rparr>"

definition do_GET :: "env \<Rightarrow> request \<Rightarrow> real \<Rightarrow> server \<Rightarrow> server \<times> outcome" where
  "do_GET e r now s =
     (case rate_limit_check r now s of
        (s1, Some out) \<Rightarrow> (s1, out)
      | (s1, None) \<Rightarrow>
     (case sanitize_headers r s1 of
        (s2, Some out) \<Rightarrow> (s2, out)
      | (s2, None) \<Rightarrow>
     (case clean_path_of (netloc_ok e) (path r) of
        Inl err \<Rightarrow> (s2, Unhandled err)
      | Inr clean_path \<Rightarrow>
     (if clean_path = ''/shutdown'' then
        (case log_message r ''Received shutdown request from frontend.'' s2 of
           Inl err \<Rightarrow> (s2, Unhandled err)
         | Inr s3 \<Rightarrow>
             (s3\<lparr>shutdown_started := True\<rparr>,
              send_response r 200 [(''Content-type'', ''text/plain'')] ''Shutting down server...''))
      else
        (case is_safe_path (stat e) clean_path of
           Inl err \<Rightarrow> (s2, Unhandled err)
         | Inr False \<Rightarrow>
             (case log_message r (''SECURITY: Blocked unsafe path access: '' @ clean_path) s2 of
                Inl err \<Rightarrow> (s2, Unhandled err)
              | Inr s3 \<Rightarrow>
                  (case log_message r
                          (''DEBUG: Original path: '' @ path r @ '', Clean path: '' @ clean_path) s3 of
                     Inl err \<Rightarrow> (s3, Unhandled err)
                   | Inr s4 \<Rightarrow> send_error r 403 ''Forbidden'' s4))
         | Inr True \<Rightarrow>
             (case log_message r (''GET '' @ clean_path) s2 of
                Inl err \<Rightarrow> (s2, Unhandled err)
              | Inr s3 \<Rightarrow>
                  (case super_do_GET e r of
                     Sent code hdrs content \<Rightarrow> (s3, send_response r code hdrs content)
                   | Failed code msg \<Rightarrow> send_error r code msg s3)))))))"

definition do_POST :: "request \<Rightarrow> real \<Rightarrow> server \<Rightarrow> server \<times> outcome" where
  "do_POST r now s =
     (case rate_limit_check r now s of
        (s1, Some out) \<Rightarrow> (s1, out)
      | (s1, None) \<Rightarrow>
     (case sanitize_headers r s1 of
        (s2, Some out) \<Rightarrow> (s2, out)
      | (s2, None) \<Rightarrow>
     (case log_message r (''POST '' @ path r) s2 of
        Inl err \<Rightarrow> (s2, Unhandled err)
      | Inr s3 \<Rightarrow> send_error r 405 ''Method Not Allowed'' s3)))"

definition do_OPTIONS :: "request \<Rightarrow> real \<Rightarrow> server \<Rightarrow> server \<times> outcome" where
  "do_OPTIONS r now s =
     (case rate_limit_check r now s of
        (s1, Some out) \<Rightarrow> (s1, out)
      | (s1, None) \<Rightarrow> (s1, send_response r 200 [] []))"

text \<open>
  One request through the handler class, for the three methods it overrides, and a
  sequence of requests one after the other, each with the clock value it is checked at.
\<close>

datatype http_method = GET | POST | OPTIONS

definition handle :: "env \<Rightarrow> http_method \<Rightarrow> request \<Rightarrow> real \<Rightarrow> server \<Rightarrow> server \<times> outcome" where
  "handle e m r now s =
     (case m of GET \<Rightarrow> do_GET e r now s | POST \<Rightarrow> do_POST r now s | OPTIONS \<Rightarrow> do_OPTIONS r now s)"

fun serve :: "env \<Rightarrow> (http_method \<times> request \<times> real) list \<Rightarrow> server \<Rightarrow> server" where
  "serve e [] s = s"
| "serve e ((m, r, now) # rest) s = serve e rest (fst (handle e m r now s))"

subsection \<open>Notions used in the statements\<close>

text \<open>
  \<open>same_limits\<close>: two states agree on \<^verbatim>\<open>request_counts\<close> and \<^verbatim>\<open>blocked_ips\<close>.
  \<open>recorded s ip\<close> is \<^verbatim>\<open>request_counts.get(ip, [])\<close>. \<open>in_window now t\<close>: the time
  \<open>t\<close> lies in the trailing interval of \<^verbatim>\<open>RATE_LIMIT_WINDOW\<close> seconds that ends at
  \<open>now\<close>. \<open>times_of ip evs\<close> are the clock values of the requests of one client in a
  sequence of requests, \<open>clock evs\<close> those of all of them. The last two are the 429
  responses of \<^verbatim>\<open>rate_limit_check\<close>.
\<close>

definition same_limits :: "server \<Rightarrow> server \<Rightarrow> bool" where
  "same_limits s s' = (request_counts s' = request_counts s \<and> blocked_ips s' = blocked_ips s)"

definition recorded :: "server \<Rightarrow> string \<Rightarrow> real list" where
  "recorded s ip = (case request_counts s ip of None \<Rightarrow> [] | Some ts \<Rightarrow> ts)"

definition in_window :: "real \<Rightarrow> real \<Rightarrow> bool" where
  "in_window now t = (now - RATE_LIMIT_WINDOW < t \<and> t \<le> now)"

definition times_of :: "string \<Rightarrow> (http_method \<times> request \<times> real) list \<Rightarrow> real list" where
  "times_of ip evs = map (\<lambda>(m, r, t). t) (filter (\<lambda>(m, r, t). client_ip r = ip) evs)"

definition clock :: "(http_method \<times> request \<times> real) list \<Rightarrow> real list" where
  "clock evs = map (\<lambda>(m, r, t). t) evs"

definition too_many_requests :: "request \<Rightarrow> outcome" where
  "too_many_requests r =
     Responded \<lparr>status = 429, message = Some ''Too Many Requests'', headers = end_headers r,
                body = []\<rparr>"

definition ip_blocked :: "request \<Rightarrow> outcome" where
  "ip_blocked r =
     Responded \<lparr>status = 429, message = Some ''Too Many Requests - IP Blocked'',
                headers = end_headers r, body = []\<rparr>"

text \<open>
  \<open>isSafe\<close> is the path check as \<^verbatim>\<open>do_GET\<close> applies it to a raw request path: decode,
  then \<^verbatim>\<open>is_safe_path\<close>. \<open>path_extension\<close> is the extension of a request path as a
  text: from its last dot to its end, empty without a dot. \<open>fixed_headers\<close> are the ten
  headers of \<^verbatim>\<open>end_headers\<close> that do not depend on the request. \<open>content_length_ok\<close>
  and \<open>user_agent_ok\<close> are the two limits of \<^verbatim>\<open>sanitize_headers\<close>.
\<close>

definition isSafe :: "env \<Rightarrow> string \<Rightarrow> py_error + bool" where
  "isSafe e raw =
     (case clean_path_of (netloc_ok e) raw of
        Inl err \<Rightarrow> Inl err
      | Inr clean_path \<Rightarrow> is_safe_path (stat e) clean_path)"



definition content_length_ok :: "request \<Rightarrow> bool" where
  "content_length_ok r =
     (case content_length r of
        None \<Rightarrow> True
      | Some cl \<Rightarrow>
          cl = [] \<or> (case py_int cl of Inl err \<Rightarrow> False | Inr len \<Rightarrow> len \<le> MAX_CONTENT_LENGTH))"

definition user_agent_ok :: "request \<Rightarrow> bool" where
  "user_agent_ok r = (case user_agent r of None \<Rightarrow> True | Some ua \<Rightarrow> length ua \<le> 500)"

definition error_response :: "request \<Rightarrow> nat \<Rightarrow> string \<Rightarrow> outcome" where
  "error_response r code msg =
     Responded \<lparr>status = code, message = Some msg, headers = end_headers r, body = []\<rparr>"

subsection \<open>Concrete requests, states and environments\<close>

text \<open>Inputs at which the theorems below are evaluated.\<close>

definition banned_state :: server where
  "banned_state =
     \<lparr>request_counts = [''10.0.0.1'' \<mapsto> [1, 2], ''10.0.0.2'' \<mapsto> [3]],
      blocked_ips = {''10.0.0.1''}, log = [], shutdown_started = False\<rparr>"

definition banned_request :: request where
  "banned_request =
     \<lparr>client_ip = ''10.0.0.1'', path = ''/index.html'', content_length = None,
      user_agent = None\<rparr>"

definition quiet_env :: env where
  "quiet_env =
     \<lparr>stat = (\<lambda>p. Inr Missing), netloc_ok = (\<lambda>n. True),
      super_do_GET = (\<lambda>r. Failed 404 ''File not found'')\<rparr>"

definition index_request :: request where
  "index_request =
     \<lparr>client_ip = ''10.0.0.2'', path = ''/index.html'', content_length = None,
      user_agent = None\<rparr>"

definition two_requests :: "(http_method \<times> request \<times> real) list" where
  "two_requests = [(OPTIONS, index_request, 10), (POST, index_request, 20)]"

definition full_window_state :: server where
  "full_window_state =
     \<lparr>request_counts = [''10.0.0.3'' \<mapsto> replicate 100 50], blocked_ips = {}, log = [],
      shutdown_started = False\<rparr>"

definition busy_request :: request where
  "busy_request =
     \<lparr>client_ip = ''10.0.0.3'', path = ''/'', content_length = None, user_agent = None\<rparr>"

definition site_files :: filesystem where
  "site_files p =
     (if p \<in> set [''index.html'', ''style.css'', ''logo.png'', ''config.env'', ''server.py'']
      then Inr RegularFile
      else if p = ''private'' then Inl OSError
      else if p = ''assets'' then Inr OtherKind
      else Inr Missing)"

definition site_env :: env where
  "site_env =
     \<lparr>stat = site_files, netloc_ok = (\<lambda>n. True),
      super_do_GET = (\<lambda>r. if path r = ''/style.css''
                           then Sent 200 [(''Content-type'', ''text/css'')] ''body {}''
                           else Failed 404 ''File not found'')\<rparr>"

definition plain_request :: "string \<Rightarrow> request" where
  "plain_request p =
     \<lparr>client_ip = ''10.0.0.2'', path = p, content_length = None, user_agent = None\<rparr>"

definition oversized_request :: "string \<Rightarrow> request" where
  "oversized_request p =
     \<lparr>client_ip = ''10.0.0.2'', path = p, content_length = Some ''10485761'',
      user_agent = None\<rparr>"

section \<open>What the helpers leave alone\<close>

text \<open>
  A format without a percent sign is logged as it is, so \<^verbatim>\<open>send_error\<close> with one of the
  fixed messages of server.py always sends its response. Logging and \<^verbatim>\<open>send_error\<close>
  touch neither \<^verbatim>\<open>request_counts\<close> nor \<^verbatim>\<open>blocked_ips\<close>.
\<close>

lemma py_format_plain: "CHR ''%'' \<notin> set f \<Longrightarrow> py_format f = Inr f"
  by (induction f) auto

lemma str_nat_plain: "CHR ''%'' \<notin> set (str_nat n)"
proof (induction n rule: str_nat.induct)
  case (1 n)
  have d: "char_of (48 + k) \<noteq> CHR ''%''" if "k < 10" for k :: nat
  proof
    assume "char_of (48 + k) = CHR ''%''"
    then have "(of_char (char_of (48 + k) :: char) :: nat) = of_char CHR ''%''" by simp
    with that show False by (simp add: of_char_of)
  qed
  show ?case
  proof (cases "n < 10")
    case True
    then show ?thesis using d [of n] by (subst str_nat.simps) simp
  next
    case False
    then show ?thesis using 1 d [of "n mod 10"] by (subst str_nat.simps) simp
  qed
qed

lemma log_message_plain:
  "CHR ''%'' \<notin> set f \<Longrightarrow> log_message r f s = Inr (s\<lparr>log := log s @ [(client_ip r, f)]\<rparr>)"
  by (simp add: log_message_def py_format_plain)

lemma log_message_frame:
  "log_message r f s = Inr s' \<Longrightarrow>
     request_counts s' = request_counts s \<and> blocked_ips s' = blocked_ips s \<and>
     shutdown_started s' = shutdown_started s"
  by (auto simp: log_message_def split: sum.splits)

lemma send_error_frame:
  "send_error r code msg s = (s', out) \<Longrightarrow>
     request_counts s' = request_counts s \<and> blocked_ips s' = blocked_ips s \<and>
     shutdown_started s' = shutdown_started s"
  by (auto simp: send_error_def Let_def dest: log_message_frame split: sum.splits if_splits)


lemma send_error_plain:
  assumes "CHR ''%'' \<notin> set msg"
  shows "\<exists>s'. send_error r code msg s =
           (s', Responded \<lparr>status = code,
                  message = Some (if code = 404 then ''Not Found'' else if code = 403 then ''Forbidden''
                                  else if code = 500 then ''Internal Server Error'' else msg),
                  headers = end_headers r, body = []\<rparr>)"
proof -
  have "CHR ''%'' \<notin> set (''ERROR '' @ str_nat code @ '': '' @ (if msg = [] then ''Unknown error'' else msg))"
    using assms str_nat_plain [of code] by auto
  then show ?thesis
    by (simp add: send_error_def Let_def log_message_plain del: set_append)
qed

lemma same_limits_refl: "same_limits s s"
  by (simp add: same_limits_def)

lemma same_limits_trans: "same_limits s s' \<Longrightarrow> same_limits s' s'' \<Longrightarrow> same_limits s s''"
  by (simp add: same_limits_def)

lemma log_message_limits: "log_message r f s = Inr s' \<Longrightarrow> same_limits s s'"
  by (simp add: same_limits_def log_message_frame)

lemma send_error_limits: "send_error r code msg s = (s', out) \<Longrightarrow> same_limits s s'"
  by (simp add: same_limits_def send_error_frame)

lemma sanitize_headers_limits: "sanitize_headers r s = (s', res) \<Longrightarrow> same_limits s s'"
  unfolding sanitize_headers_def Let_def
  by (auto split: option.splits sum.splits prod.splits if_splits py_error.splits outcome.splits
       intro: same_limits_refl dest!: send_error_limits elim: same_limits_trans)

lemma same_limits_shutdown [simp]:
  "same_limits s (s'\<lparr>shutdown_started := b\<rparr>) = same_limits s s'"
  by (simp add: same_limits_def)

lemma do_GET_limits:
  assumes "rate_limit_check r now s = (s1, res)" and "do_GET e r now s = (s', out)"
  shows "same_limits s1 s'"
proof (cases res)
  case (Some o1)
  with assms show ?thesis by (simp add: do_GET_def same_limits_refl)
next
  case None
  obtain s2 res2 where sh: "sanitize_headers r s1 = (s2, res2)" by (cases "sanitize_headers r s1")
  note l2 = sanitize_headers_limits [OF sh]
  show ?thesis
  proof (cases res2)
    case (Some o2)
    with assms None sh l2 show ?thesis by (simp add: do_GET_def)
  next
    case n2: None
    have "same_limits s2 s'"
      using assms None sh n2
      by (auto simp: do_GET_def Let_def send_response_def
            split: sum.splits bool.splits served.splits if_splits
            intro: same_limits_refl
            dest!: send_error_limits log_message_limits elim: same_limits_trans)
    with l2 show ?thesis by (rule same_limits_trans)
  qed
qed

lemma do_POST_limits:
  assumes "rate_limit_check r now s = (s1, res)" and "do_POST r now s = (s', out)"
  shows "same_limits s1 s'"
  using assms
  by (auto simp: do_POST_def split: option.splits prod.splits sum.splits
        intro: same_limits_refl
        dest!: send_error_limits log_message_limits sanitize_headers_limits
        elim: same_limits_trans)

lemma do_OPTIONS_limits:
  assumes "rate_limit_check r now s = (s1, res)" and "do_OPTIONS r now s = (s', out)"
  shows "same_limits s1 s'"
  using assms by (auto simp: do_OPTIONS_def split: option.splits intro: same_limits_refl)

lemma handle_limits:
  "same_limits (fst (rate_limit_check r now s)) (fst (handle e m r now s))"
proof -
  obtain s1 res where rl: "rate_limit_check r now s = (s1, res)" by (cases "rate_limit_check r now s")
  obtain s' out where h: "handle e m r now s = (s', out)" by (cases "handle e m r now s")
  from rl h have "same_limits s1 s'"
    by (cases m) (auto simp: handle_def dest: do_GET_limits do_POST_limits do_OPTIONS_limits)
  with rl h show ?thesis by simp
qed

section \<open>The rate limiter\<close>

lemma rate_limit_check_on_banned:
  assumes "client_ip r \<in> blocked_ips s"
  shows "request_counts (fst (rate_limit_check r now s)) = request_counts s \<and>
         blocked_ips (fst (rate_limit_check r now s)) = blocked_ips s \<and>
         snd (rate_limit_check r now s) =
           Some (Responded \<lparr>status = 429, message = Some ''Too Many Requests - IP Blocked'',
                            headers = end_headers r, body = []\<rparr>)"
proof -
  obtain s' where se: "send_error r 429 ''Too Many Requests - IP Blocked'' s =
      (s', Responded \<lparr>status = 429, message = Some ''Too Many Requests - IP Blocked'',
                      headers = end_headers r, body = []\<rparr>)"
    using send_error_plain [of "''Too Many Requests - IP Blocked''" r 429 s] by auto
  from send_error_frame [OF se] have fr: "request_counts s' = request_counts s"
    "blocked_ips s' = blocked_ips s" by simp_all
  from assms se have "rate_limit_check r now s =
      (s', Some (Responded \<lparr>status = 429, message = Some ''Too Many Requests - IP Blocked'',
                      headers = end_headers r, body = []\<rparr>))"
    by (simp add: rate_limit_check_def)
  with fr show ?thesis by simp
qed

lemma rate_limit_check_counts:
  assumes "client_ip r \<notin> blocked_ips s"
  shows "request_counts (fst (rate_limit_check r now s)) =
           (request_counts s)(client_ip r \<mapsto>
              filter (\<lambda>t. t > now - RATE_LIMIT_WINDOW) (recorded s (client_ip r)) @ [now])"
  using assms
  by (auto simp: rate_limit_check_def Let_def recorded_def
        split: sum.splits prod.splits dest!: send_error_frame log_message_frame)

lemma rate_limit_check_allowed:
  assumes "client_ip r \<notin> blocked_ips s"
    and "\<not> length (filter (\<lambda>t. t > now - RATE_LIMIT_WINDOW) (recorded s (client_ip r)) @ [now])
            > RATE_LIMIT_MAX_REQUESTS"
  shows "snd (rate_limit_check r now s) = None \<and>
         blocked_ips (fst (rate_limit_check r now s)) = blocked_ips s"
  using assms by (simp add: rate_limit_check_def Let_def recorded_def)

lemma rate_limit_check_newly_banned:
  assumes "client_ip r \<notin> blocked_ips s"
    and "length (filter (\<lambda>t. t > now - RATE_LIMIT_WINDOW) (recorded s (client_ip r)) @ [now])
            > RATE_LIMIT_MAX_REQUESTS"
  shows "snd (rate_limit_check r now s) \<noteq> None \<and>
         blocked_ips (fst (rate_limit_check r now s)) = insert (client_ip r) (blocked_ips s) \<and>
         (CHR ''%'' \<notin> set (client_ip r) \<longrightarrow>
            snd (rate_limit_check r now s) = Some (too_many_requests r))"
proof -
  let ?ip = "client_ip r"
  let ?kept = "filter (\<lambda>t. t > now - RATE_LIMIT_WINDOW) (recorded s ?ip)"
  let ?s1 = "s\<lparr>request_counts := (request_counts s)(?ip \<mapsto> ?kept @ [now])\<rparr>"
  let ?s2 = "?s1\<lparr>blocked_ips := insert ?ip (blocked_ips ?s1)\<rparr>"
  let ?line = "''SECURITY: Rate limit exceeded for '' @ ?ip @ '' - IP blocked''"
  have unfold: "rate_limit_check r now s =
      (case log_message r ?line ?s2 of
         Inl e \<Rightarrow> (?s2, Some (Unhandled e))
       | Inr s3 \<Rightarrow> (case send_error r 429 ''Too Many Requests'' s3 of (s4, out) \<Rightarrow> (s4, Some out)))"
    using assms by (simp add: rate_limit_check_def Let_def recorded_def cong: sum.case_cong)
  have a: "snd (rate_limit_check r now s) \<noteq> None"
    unfolding unfold by (simp split: sum.splits prod.splits)
  have b: "blocked_ips (fst (rate_limit_check r now s)) = insert ?ip (blocked_ips s)"
    unfolding unfold
    by (auto split: sum.splits prod.splits dest!: send_error_frame log_message_frame)
  have c: "snd (rate_limit_check r now s) = Some (too_many_requests r)"
    if "CHR ''%'' \<notin> set ?ip"
  proof -
    from that have "CHR ''%'' \<notin> set ?line" by simp
    then have lg: "log_message r ?line ?s2 = Inr (?s2\<lparr>log := log ?s2 @ [(?ip, ?line)]\<rparr>)"
      by (rule log_message_plain)
    obtain s4 where "send_error r 429 ''Too Many Requests'' (?s2\<lparr>log := log ?s2 @ [(?ip, ?line)]\<rparr>) =
        (s4, too_many_requests r)"
      using send_error_plain [of "''Too Many Requests''" r 429 "?s2\<lparr>log := log ?s2 @ [(?ip, ?line)]\<rparr>"]
      by (auto simp: too_many_requests_def)
    with lg show ?thesis unfolding unfold by simp
  qed
  from a b c show ?thesis by blast
qed

lemma serve_snoc: "serve e (evs @ [(m, r, t)]) s = fst (handle e m r t (serve e evs s))"
  by (induction evs arbitrary: s) auto

lemma rate_limit_check_blocked_mono:
  "blocked_ips s \<subseteq> blocked_ips (fst (rate_limit_check r now s))"
proof (cases "client_ip r \<in> blocked_ips s")
  case True
  then show ?thesis using rate_limit_check_on_banned [of r s now] by simp
next
  case False
  show ?thesis
  proof (cases "length (filter (\<lambda>t. t > now - RATE_LIMIT_WINDOW) (recorded s (client_ip r)) @ [now])
            > RATE_LIMIT_MAX_REQUESTS")
    case True
    with False rate_limit_check_newly_banned [of r s now] show ?thesis by auto
  next
    case n: False
    with False rate_limit_check_allowed [of r s now] show ?thesis by auto
  qed
qed

lemma rate_limit_check_other_client:
  assumes "ip \<noteq> client_ip r"
  shows "request_counts (fst (rate_limit_check r now s)) ip = request_counts s ip \<and>
         (ip \<in> blocked_ips (fst (rate_limit_check r now s)) \<longleftrightarrow> ip \<in> blocked_ips s)"
proof (cases "client_ip r \<in> blocked_ips s")
  case True
  then show ?thesis using rate_limit_check_on_banned [of r s now] by simp
next
  case False
  note cnt = rate_limit_check_counts [OF False, of now]
  show ?thesis
  proof (cases "length (filter (\<lambda>t. t > now - RATE_LIMIT_WINDOW) (recorded s (client_ip r)) @ [now])
            > RATE_LIMIT_MAX_REQUESTS")
    case True
    with False rate_limit_check_newly_banned [of r s now] cnt assms show ?thesis by auto
  next
    case n: False
    with False rate_limit_check_allowed [of r s now] cnt assms show ?thesis by auto
  qed
qed

lemma handle_blocked_mono: "blocked_ips s \<subseteq> blocked_ips (fst (handle e m r now s))"
  using handle_limits [of r now s e m] rate_limit_check_blocked_mono [of s r now]
  by (simp add: same_limits_def)

lemma serve_blocked_mono: "blocked_ips s \<subseteq> blocked_ips (serve e evs s)"
proof (induction evs arbitrary: s)
  case Nil
  show ?case by simp
next
  case (Cons ev evs)
  obtain m r t where ev: "ev = (m, r, t)" by (cases ev)
  have "blocked_ips s \<subseteq> blocked_ips (fst (handle e m r t s))" by (rule handle_blocked_mono)
  also have "\<dots> \<subseteq> blocked_ips (serve e evs (fst (handle e m r t s)))" by (rule Cons.IH)
  finally show ?case by (simp add: ev)
qed

lemma filter_window_shift:
  fixes ts :: "real list"
  assumes "l \<le> t"
  shows "filter (\<lambda>x. x > t - RATE_LIMIT_WINDOW) (filter (\<lambda>x. x > l - RATE_LIMIT_WINDOW) ts)
           = filter (\<lambda>x. x > t - RATE_LIMIT_WINDOW) ts"
proof -
  have "(l - RATE_LIMIT_WINDOW < x \<and> t - RATE_LIMIT_WINDOW < x) = (t - RATE_LIMIT_WINDOW < x)" for x
    using assms by auto
  then show ?thesis by simp
qed

lemma times_of_subset: "set (times_of ip evs) \<subseteq> set (clock evs)"
  by (force simp: times_of_def clock_def)

lemma served_window:
  assumes "sorted (clock evs)" and "ip \<notin> blocked_ips (serve e evs initial_server)"
  shows "recorded (serve e evs initial_server) ip
           = filter (\<lambda>x. x > last (times_of ip evs) - RATE_LIMIT_WINDOW) (times_of ip evs)"
  using assms
proof (induction evs rule: rev_induct)
  case Nil
  show ?case by (simp add: recorded_def initial_server_def times_of_def)
next
  case (snoc ev evs)
  obtain m r t where ev: "ev = (m, r, t)" by (cases ev)
  let ?S = "serve e evs initial_server"
  let ?ts = "times_of ip evs"
  have step: "serve e (evs @ [ev]) initial_server = fst (handle e m r t ?S)"
    by (simp add: ev serve_snoc)
  have lim: "request_counts (fst (handle e m r t ?S)) = request_counts (fst (rate_limit_check r t ?S))"
    "blocked_ips (fst (handle e m r t ?S)) = blocked_ips (fst (rate_limit_check r t ?S))"
    using handle_limits [of r t ?S e m] by (simp_all add: same_limits_def)
  from snoc.prems(1) have srt: "sorted (clock evs)" and le: "\<forall>x \<in> set (clock evs). x \<le> t"
    by (simp_all add: clock_def ev sorted_append)
  from snoc.prems(2) have nb: "ip \<notin> blocked_ips ?S"
    using handle_blocked_mono [of ?S e m r t] step by auto
  from snoc.IH [OF srt nb]
  have IH: "recorded ?S ip = filter (\<lambda>x. x > last ?ts - RATE_LIMIT_WINDOW) ?ts" .
  show ?case
  proof (cases "client_ip r = ip")
    case True
    have tn: "times_of ip (evs @ [ev]) = ?ts @ [t]"
      using True by (simp add: times_of_def ev)
    from nb True have nb': "client_ip r \<notin> blocked_ips ?S" by simp
    have rec: "recorded (fst (handle e m r t ?S)) ip
                 = filter (\<lambda>x. x > t - RATE_LIMIT_WINDOW) (recorded ?S ip) @ [t]"
      using rate_limit_check_counts [OF nb', of t] True lim(1) by (simp add: recorded_def)
    have "filter (\<lambda>x. x > t - RATE_LIMIT_WINDOW) (recorded ?S ip)
            = filter (\<lambda>x. x > t - RATE_LIMIT_WINDOW) ?ts"
    proof (cases "?ts = []")
      case True
      with IH show ?thesis by simp
    next
      case False
      then have "last ?ts \<in> set (clock evs)" using times_of_subset [of ip evs] by auto
      with le have "last ?ts \<le> t" by simp
      then show ?thesis unfolding IH by (rule filter_window_shift)
    qed
    with rec show ?thesis by (simp add: step tn RATE_LIMIT_WINDOW_def)
  next
    case False
    then have tn: "times_of ip (evs @ [ev]) = ?ts" by (simp add: times_of_def ev)
    from False have "ip \<noteq> client_ip r" by simp
    from rate_limit_check_other_client [OF this, of t ?S] lim(1)
    have "recorded (fst (handle e m r t ?S)) ip = recorded ?S ip" by (simp add: recorded_def)
    with IH show ?thesis by (simp add: step tn)
  qed
qed

lemma window_count:
  assumes "sorted (clock evs @ [now])" and "ip \<notin> blocked_ips (serve e evs initial_server)"
  shows "length (filter (\<lambda>t. t > now - RATE_LIMIT_WINDOW) (recorded (serve e evs initial_server) ip) @ [now])
           = length (filter (in_window now) (times_of ip evs @ [now]))"
proof -
  let ?ts = "times_of ip evs"
  from assms(1) have srt: "sorted (clock evs)" and le: "\<forall>x \<in> set (clock evs). x \<le> now"
    by (simp_all add: sorted_append)
  have rec: "recorded (serve e evs initial_server) ip
               = filter (\<lambda>x. x > last ?ts - RATE_LIMIT_WINDOW) ?ts"
    by (rule served_window [OF srt assms(2)])
  have le': "\<forall>x \<in> set ?ts. x \<le> now" using le times_of_subset [of ip evs] by auto
  have "filter (\<lambda>x. x > now - RATE_LIMIT_WINDOW) (recorded (serve e evs initial_server) ip)
          = filter (\<lambda>x. x > now - RATE_LIMIT_WINDOW) ?ts"
  proof (cases "?ts = []")
    case True
    with rec show ?thesis by simp
  next
    case False
    then have "last ?ts \<le> now" using le' by simp
    then show ?thesis unfolding rec by (rule filter_window_shift)
  qed
  also have "\<dots> = filter (in_window now) ?ts"
    using le' by (intro filter_cong) (auto simp: in_window_def)
  finally show ?thesis by (simp add: in_window_def RATE_LIMIT_WINDOW_def)
qed

lemma str_nat_codes:
  "str_nat 405 = ''405''" "str_nat 429 = ''429''" "str_nat 404 = ''404''" "str_nat 403 = ''403''"
  "str_nat 400 = ''400''" "str_nat 413 = ''413''"
  by code_simp+

lemma serve_two_requests:
  "request_counts (serve quiet_env two_requests initial_server) = [''10.0.0.2'' \<mapsto> [10, 20]]"
  "blocked_ips (serve quiet_env two_requests initial_server) = {}"
  by (simp_all add: two_requests_def index_request_def initial_server_def handle_def do_OPTIONS_def
        do_POST_def rate_limit_check_def sanitize_headers_def send_response_def send_error_def
        log_message_def Let_def RATE_LIMIT_WINDOW_def RATE_LIMIT_MAX_REQUESTS_def str_nat_codes)

lemma hundred_and_first_request:
  "blocked_ips (fst (rate_limit_check busy_request 60 full_window_state)) = {''10.0.0.3''}"
  "snd (rate_limit_check busy_request 60 full_window_state) = Some (too_many_requests busy_request)"
proof -
  have nb: "client_ip busy_request \<notin> blocked_ips full_window_state"
    by (simp add: full_window_state_def)
  have many: "length (filter (\<lambda>t. t > 60 - RATE_LIMIT_WINDOW)
                 (recorded full_window_state (client_ip busy_request)) @ [60]) > RATE_LIMIT_MAX_REQUESTS"
    by (simp add: recorded_def full_window_state_def busy_request_def RATE_LIMIT_WINDOW_def
          RATE_LIMIT_MAX_REQUESTS_def)
  have np: "CHR ''%'' \<notin> set (client_ip busy_request)" by (simp add: busy_request_def)
  from rate_limit_check_newly_banned [OF nb many] np
  show "blocked_ips (fst (rate_limit_check busy_request 60 full_window_state)) = {''10.0.0.3''}"
    "snd (rate_limit_check busy_request 60 full_window_state) = Some (too_many_requests busy_request)"
    by (simp_all add: busy_request_def full_window_state_def)
qed

text \<open>
  C7. For a client that is already in \<^verbatim>\<open>blocked_ips\<close>, \<^verbatim>\<open>rate_limit_check\<close> answers 429
  "Too Many Requests - IP Blocked" at once: \<^verbatim>\<open>request_counts\<close> is the same map afterwards,
  for this client and for every other one (nothing is pruned, the current time is not
  appended), and the ban set is the same.
\<close>

theorem rate_limit_check_banned:
  assumes "client_ip r \<in> blocked_ips s"
  shows "request_counts (fst (rate_limit_check r now s)) = request_counts s \<and>
         blocked_ips (fst (rate_limit_check r now s)) = blocked_ips s \<and>
         snd (rate_limit_check r now s) =
           Some (Responded \<lparr>status = 429, message = Some ''Too Many Requests - IP Blocked'',
                            headers = end_headers r, body = []\<rparr>)"
  using assms by (rule rate_limit_check_on_banned)

theorem rate_limit_check_banned_witness:
  "client_ip banned_request \<in> blocked_ips banned_state \<and>
   request_counts (fst (rate_limit_check banned_request 1000 banned_state)) ''10.0.0.1''
     = Some [1, 2] \<and>
   request_counts (fst (rate_limit_check banned_request 1000 banned_state)) ''10.0.0.2''
     = Some [3] \<and>
   (\<exists>resp. snd (rate_limit_check banned_request 1000 banned_state) = Some (Responded resp)
      \<and> status resp = 429)"
proof -
  have h: "client_ip banned_request \<in> blocked_ips banned_state"
    by (simp add: banned_request_def banned_state_def)
  from rate_limit_check_banned [OF h, of 1000] h show ?thesis
    by (simp add: banned_state_def)
qed

text \<open>
  C1. For a client that is not in \<^verbatim>\<open>blocked_ips\<close>, \<^verbatim>\<open>rate_limit_check\<close> keeps of the
  client's list the times greater than \<open>now - RATE_LIMIT_WINDOW\<close> and appends \<open>now\<close>.
  If the list is then longer than \<^verbatim>\<open>RATE_LIMIT_MAX_REQUESTS\<close>, the client is added to
  \<^verbatim>\<open>blocked_ips\<close> and the request is refused (with 429 "Too Many Requests" when the log
  line can be formatted); otherwise the ban set is unchanged and the request is allowed.
  Consequently, after any sequence of requests served from the initial state with a clock
  that does not run backwards, a client that is not banned is refused exactly when more
  than \<^verbatim>\<open>RATE_LIMIT_MAX_REQUESTS\<close> of its requests, the current one included, fall in the
  trailing window that ends at \<open>now\<close>.
\<close>

theorem rate_limit_check_sliding_window:
  assumes "client_ip r \<notin> blocked_ips s"
  shows "request_counts (fst (rate_limit_check r now s)) =
           (request_counts s)(client_ip r \<mapsto>
              filter (\<lambda>t. t > now - RATE_LIMIT_WINDOW) (recorded s (client_ip r)) @ [now]) \<and>
         (if length (filter (\<lambda>t. t > now - RATE_LIMIT_WINDOW) (recorded s (client_ip r)) @ [now])
               > RATE_LIMIT_MAX_REQUESTS
          then blocked_ips (fst (rate_limit_check r now s)) = insert (client_ip r) (blocked_ips s) \<and>
               snd (rate_limit_check r now s) \<noteq> None \<and>
               (CHR ''%'' \<notin> set (client_ip r) \<longrightarrow>
                  snd (rate_limit_check r now s) = Some (too_many_requests r))
          else blocked_ips (fst (rate_limit_check r now s)) = blocked_ips s \<and>
               snd (rate_limit_check r now s) = None) \<and>
         (\<forall>e evs. s = serve e evs initial_server \<and> sorted (clock evs @ [now]) \<longrightarrow>
            (snd (rate_limit_check r now s) \<noteq> None \<longleftrightarrow>
             length (filter (in_window now) (times_of (client_ip r) evs @ [now]))
               > RATE_LIMIT_MAX_REQUESTS))"
proof -
  let ?n = "length (filter (\<lambda>t. t > now - RATE_LIMIT_WINDOW) (recorded s (client_ip r)) @ [now])"
  have denied: "snd (rate_limit_check r now s) \<noteq> None \<longleftrightarrow> ?n > RATE_LIMIT_MAX_REQUESTS"
    using rate_limit_check_allowed [OF assms, of now] rate_limit_check_newly_banned [OF assms, of now]
    by (cases "?n > RATE_LIMIT_MAX_REQUESTS") simp_all
  have hist: "snd (rate_limit_check r now s) \<noteq> None \<longleftrightarrow>
        length (filter (in_window now) (times_of (client_ip r) evs @ [now])) > RATE_LIMIT_MAX_REQUESTS"
    if "s = serve e evs initial_server" and "sorted (clock evs @ [now])" for e evs
    using window_count [OF that(2), of "client_ip r" e] assms denied that(1) by simp
  have hist_all: "\<forall>e evs. s = serve e evs initial_server \<and> sorted (clock evs @ [now]) \<longrightarrow>
      (snd (rate_limit_check r now s) \<noteq> None \<longleftrightarrow>
       length (filter (in_window now) (times_of (client_ip r) evs @ [now]))
         > RATE_LIMIT_MAX_REQUESTS)"
    using hist by blast
  show ?thesis
  proof (cases "?n > RATE_LIMIT_MAX_REQUESTS")
    case True
    from rate_limit_check_counts [OF assms, of now] rate_limit_check_newly_banned [OF assms True]
      hist_all True
    show ?thesis by (simp only: if_True simp_thms) blast
  next
    case False
    from rate_limit_check_counts [OF assms, of now] rate_limit_check_allowed [OF assms False]
      hist_all False
    show ?thesis by (simp only: if_False simp_thms)
  qed
qed

theorem rate_limit_check_sliding_window_witness:
  "client_ip index_request \<notin> blocked_ips (serve quiet_env two_requests initial_server) \<and>
   sorted (clock two_requests @ [75]) \<and>
   request_counts (fst (rate_limit_check index_request 75
       (serve quiet_env two_requests initial_server))) ''10.0.0.2'' = Some [20, 75] \<and>
   snd (rate_limit_check index_request 75 (serve quiet_env two_requests initial_server)) = None \<and>
   \<not> length (filter (in_window 75) (times_of ''10.0.0.2'' two_requests @ [75]))
       > RATE_LIMIT_MAX_REQUESTS"
proof -
  let ?S = "serve quiet_env two_requests initial_server"
  have h: "client_ip index_request \<notin> blocked_ips ?S"
    by (simp add: serve_two_requests)
  have srt: "sorted (clock two_requests @ [75])"
    by (simp add: clock_def two_requests_def)
  have few: "\<not> length (filter (\<lambda>t. t > 75 - RATE_LIMIT_WINDOW) (recorded ?S (client_ip index_request)) @ [75])
               > RATE_LIMIT_MAX_REQUESTS"
    by (simp add: recorded_def serve_two_requests index_request_def RATE_LIMIT_WINDOW_def
          RATE_LIMIT_MAX_REQUESTS_def)
  have ip: "client_ip index_request = ''10.0.0.2''" by (simp add: index_request_def)
  note main = rate_limit_check_sliding_window [OF h, of 75]
  from main have counts: "request_counts (fst (rate_limit_check index_request 75 ?S)) ''10.0.0.2''
      = Some [20, 75]"
    by (simp add: ip recorded_def serve_two_requests RATE_LIMIT_WINDOW_def)
  from main few have allowed: "snd (rate_limit_check index_request 75 ?S) = None"
    by simp
  from main srt have "snd (rate_limit_check index_request 75 ?S) \<noteq> None \<longleftrightarrow>
      length (filter (in_window 75) (times_of (client_ip index_request) two_requests @ [75]))
        > RATE_LIMIT_MAX_REQUESTS"
    by blast
  with allowed have "\<not> length (filter (in_window 75) (times_of ''10.0.0.2'' two_requests @ [75]))
       > RATE_LIMIT_MAX_REQUESTS"
    by (simp add: ip)
  with h srt counts allowed show ?thesis by simp
qed

text \<open>
  C2. Once \<^verbatim>\<open>rate_limit_check\<close> has put a client into \<^verbatim>\<open>blocked_ips\<close>, every later check
  for that client, after any requests of any clients and at any clock value, answers 429
  "Too Many Requests - IP Blocked", and so does every handler. No handler and no sequence
  of requests ever removes a member of the ban set.
\<close>

theorem ban_is_permanent:
  assumes "client_ip r \<in> blocked_ips (fst (rate_limit_check r now s))"
  shows "(\<forall>e evs r' now' m. client_ip r' = client_ip r \<longrightarrow>
            snd (rate_limit_check r' now' (serve e evs (fst (rate_limit_check r now s))))
              = Some (ip_blocked r') \<and>
            snd (handle e m r' now' (serve e evs (fst (rate_limit_check r now s)))) = ip_blocked r') \<and>
         (\<forall>e evs s0. blocked_ips s0 \<subseteq> blocked_ips (serve e evs s0)) \<and>
         (\<forall>e m q t s0. blocked_ips s0 \<subseteq> blocked_ips (fst (handle e m q t s0)))"
proof -
  have later: "snd (rate_limit_check r' now' (serve e evs (fst (rate_limit_check r now s))))
                 = Some (ip_blocked r') \<and>
               snd (handle e m r' now' (serve e evs (fst (rate_limit_check r now s)))) = ip_blocked r'"
    if "client_ip r' = client_ip r" for e evs r' now' m
  proof -
    let ?S = "serve e evs (fst (rate_limit_check r now s))"
    have "client_ip r' \<in> blocked_ips ?S"
      using assms that serve_blocked_mono [of "fst (rate_limit_check r now s)" e evs] by auto
    from rate_limit_check_on_banned [OF this, of now']
    have rl: "snd (rate_limit_check r' now' ?S) = Some (ip_blocked r')"
      by (simp add: ip_blocked_def)
    then obtain s1 where "rate_limit_check r' now' ?S = (s1, Some (ip_blocked r'))"
      by (cases "rate_limit_check r' now' ?S") simp
    then have "snd (handle e m r' now' ?S) = ip_blocked r'"
      by (cases m) (simp_all add: handle_def do_GET_def do_POST_def do_OPTIONS_def)
    with rl show ?thesis by simp
  qed
  show ?thesis
    using later serve_blocked_mono handle_blocked_mono by blast
qed

theorem ban_is_permanent_witness:
  "client_ip busy_request \<in> blocked_ips (fst (rate_limit_check busy_request 60 full_window_state)) \<and>
   client_ip busy_request \<notin> blocked_ips full_window_state \<and>
   snd (rate_limit_check busy_request 1000000
          (serve quiet_env two_requests (fst (rate_limit_check busy_request 60 full_window_state))))
     = Some (ip_blocked busy_request) \<and>
   snd (handle quiet_env GET busy_request 1000000
          (serve quiet_env two_requests (fst (rate_limit_check busy_request 60 full_window_state))))
     = ip_blocked busy_request"
proof -
  have h: "client_ip busy_request \<in> blocked_ips (fst (rate_limit_check busy_request 60 full_window_state))"
    unfolding hundred_and_first_request(1) by (simp add: busy_request_def)
  have n: "client_ip busy_request \<notin> blocked_ips full_window_state"
    by (simp add: full_window_state_def)
  from ban_is_permanent [OF h] h n show ?thesis by simp
qed

section \<open>The path check\<close>

lemma split_on_nonempty: "split_on sep p \<noteq> []"
  by (induction p) (auto split: list.splits)

lemma split_on_dropWhile:
  "set (split_on sep p) \<subseteq> insert [] (set (split_on sep (dropWhile (\<lambda>c. c = sep) p)))"
proof (induction p)
  case Nil
  show ?case by simp
next
  case (Cons c p)
  show ?case
  proof (cases "c = sep")
    case True
    with Cons show ?thesis by auto
  next
    case False
    then show ?thesis by auto
  qed
qed

lemma blocked_nonempty: "seg \<in> set BLOCKED_PATHS \<Longrightarrow> seg \<noteq> []"
  by (auto simp: BLOCKED_PATHS_def)

lemma dotdot_blocked: "''..'' \<in> set BLOCKED_PATHS"
  by (simp add: BLOCKED_PATHS_def)

lemma is_safe_path_blocked_segment:
  assumes "seg \<in> set (split_on CHR ''/'' p)" and "seg \<in> set BLOCKED_PATHS"
  shows "is_safe_path fs p = Inr False"
proof -
  let ?clean = "dropWhile (\<lambda>c. c = CHR ''/'') p"
  from assms(2) have ne: "seg \<noteq> []" by (rule blocked_nonempty)
  with assms(1) split_on_dropWhile [of "CHR ''/''" p]
  have seg: "seg \<in> set (split_on CHR ''/'' ?clean)" by auto
  have clean: "?clean \<noteq> []"
  proof
    assume "?clean = []"
    with seg ne show False by simp
  qed
  then have p: "p \<noteq> ''/''" "p \<noteq> []" by auto
  from seg assms(2) have "list_ex (\<lambda>blocked. blocked \<in> set (split_on CHR ''/'' ?clean)) BLOCKED_PATHS"
    by (auto simp: list_ex_iff)
  with clean p have "is_safe_path_body fs p = Inr False"
    by (simp add: is_safe_path_body_def Let_def)
  then show ?thesis by (simp add: is_safe_path_def)
qed

lemma clean_paths:
  "clean_path_of ok ''/../etc/passwd'' = Inr ''/../etc/passwd''"
  "clean_path_of ok ''/a/../../b'' = Inr ''/a/../../b''"
  "clean_path_of ok ''/%2e%2e/secret'' = Inr ''/../secret''"
  "clean_path_of ok ''/%252e%252e/secret'' = Inr ''/%2e%2e/secret''"
  by (simp_all add: clean_path_of_def urlparse_path_def split_scheme_def split_params_def
        uses_params_def hex_value_def Let_def char_of_eq_iff)

lemma lower_lit:
  "lower ''.env'' = ''.env''" "lower ''.py'' = ''.py''" "lower ''.css'' = ''.css''"
  "lower ''.png'' = ''.png''"
  by (simp_all add: lower_def lower_char_def)

lemma path_suffix_lit:
  "path_suffix ''config.env'' = ''.env''" "path_suffix ''server.py'' = ''.py''"
  "path_suffix ''style.css'' = ''.css''" "path_suffix ''logo.png'' = ''.png''"
  "path_suffix ''%2e%2e/secret'' = []"
  by (simp_all add: path_suffix_def path_name_def name_suffix_def Let_def)

lemma is_safe_path_disallowed_file:
  assumes "fs (dropWhile (\<lambda>c. c = CHR ''/'') p) = Inr RegularFile"
    and "lower (path_suffix (dropWhile (\<lambda>c. c = CHR ''/'') p)) \<noteq> []"
    and "lower (path_suffix (dropWhile (\<lambda>c. c = CHR ''/'') p)) \<notin> set ALLOWED_EXTENSIONS"
  shows "is_safe_path fs p = Inr False"
proof -
  let ?clean = "dropWhile (\<lambda>c. c = CHR ''/'') p"
  have sfx: "path_suffix [] = []"
    by (simp add: path_suffix_def path_name_def name_suffix_def)
  have clean: "?clean \<noteq> []"
  proof
    assume "?clean = []"
    then have "lower (path_suffix ?clean) = []" by (simp only: sfx lower_def list.map)
    with assms(2) show False by (rule notE)
  qed
  then have p: "p \<noteq> ''/''" "p \<noteq> []" by auto
  have ex: "path_exists fs ?clean = Inr True" and fl: "path_is_file fs ?clean = Inr True"
    using assms(1) by (simp_all add: path_exists_def path_is_file_def)
  have "is_safe_path_body fs p =
      (if list_ex (\<lambda>blocked. blocked \<in> set (split_on CHR ''/'' ?clean)) BLOCKED_PATHS
       then Inr False
       else if lower (path_suffix ?clean) \<noteq> [] \<and> lower (path_suffix ?clean) \<notin> set ALLOWED_EXTENSIONS
       then Inr False
       else if ''..'' \<in> set (split_on CHR ''/'' ?clean) then Inr False else Inr True)"
    unfolding is_safe_path_body_def Let_def ex fl using clean p by auto
  with assms(2,3) have "is_safe_path_body fs p = Inr False"
    by (simp only: simp_thms if_True if_False split: if_split)
  then show ?thesis by (simp add: is_safe_path_def)
qed

lemma is_safe_path_no_file:
  assumes "fs (dropWhile (\<lambda>c. c = CHR ''/'') p) = Inr k" and "k \<noteq> RegularFile"
    and "\<forall>seg \<in> set (split_on CHR ''/'' p). seg \<notin> set BLOCKED_PATHS"
  shows "is_safe_path fs p = Inr True"
proof -
  let ?clean = "dropWhile (\<lambda>c. c = CHR ''/'') p"
  have sub: "set (split_on CHR ''/'' ?clean) \<subseteq> set (split_on CHR ''/'' p)"
  proof (induction p)
    case Nil
    show ?case by simp
  next
    case (Cons c p)
    then show ?case by (cases "c = CHR ''/''") auto
  qed
  with assms(3) have nb: "\<forall>seg \<in> set (split_on CHR ''/'' ?clean). seg \<notin> set BLOCKED_PATHS"
    by auto
  then have a: "\<not> list_ex (\<lambda>blocked. blocked \<in> set (split_on CHR ''/'' ?clean)) BLOCKED_PATHS"
    by (auto simp: list_ex_iff)
  from nb dotdot_blocked have b: "''..'' \<notin> set (split_on CHR ''/'' ?clean)" by auto
  from assms(1,2) a b have "is_safe_path_body fs p = Inr True"
    by (cases k) (simp_all add: is_safe_path_body_def Let_def path_exists_def path_is_file_def)
  then show ?thesis by (simp add: is_safe_path_def)
qed

lemma is_safe_path_allowed_file:
  assumes "fs (dropWhile (\<lambda>c. c = CHR ''/'') p) = Inr k"
    and "lower (path_suffix (dropWhile (\<lambda>c. c = CHR ''/'') p)) \<in> set ALLOWED_EXTENSIONS"
    and "\<forall>seg \<in> set (split_on CHR ''/'' p). seg \<notin> set BLOCKED_PATHS"
  shows "is_safe_path fs p = Inr True"
proof -
  let ?clean = "dropWhile (\<lambda>c. c = CHR ''/'') p"
  have sub: "set (split_on CHR ''/'' ?clean) \<subseteq> set (split_on CHR ''/'' p)"
  proof (induction p)
    case Nil
    show ?case by simp
  next
    case (Cons c p)
    then show ?case by (cases "c = CHR ''/''") auto
  qed
  with assms(3) have nb: "\<forall>seg \<in> set (split_on CHR ''/'' ?clean). seg \<notin> set BLOCKED_PATHS"
    by auto
  then have a: "\<not> list_ex (\<lambda>blocked. blocked \<in> set (split_on CHR ''/'' ?clean)) BLOCKED_PATHS"
    by (auto simp: list_ex_iff)
  from nb dotdot_blocked have b: "''..'' \<notin> set (split_on CHR ''/'' ?clean)" by auto
  from assms(1,2) a b have "is_safe_path_body fs p = Inr True"
    by (cases k) (simp_all add: is_safe_path_body_def Let_def path_exists_def path_is_file_def)
  then show ?thesis by (simp add: is_safe_path_def)
qed

lemma is_safe_path_total:
  assumes "\<forall>q err. fs q = Inl err \<longrightarrow> err = OSError \<or> err = ValueError"
  shows "\<exists>b. is_safe_path fs p = Inr b"
proof (cases "is_safe_path_body fs p")
  case (Inr b)
  then show ?thesis by (simp add: is_safe_path_def)
next
  case (Inl err)
  then obtain q where "fs q = Inl err"
    by (auto simp: is_safe_path_body_def Let_def path_exists_def path_is_file_def
          split: if_splits sum.splits)
  with assms have "err = OSError \<or> err = ValueError" by blast
  with Inl show ?thesis by (auto simp: is_safe_path_def)
qed

lemma is_safe_path_fs_error:
  assumes "fs (dropWhile (\<lambda>c. c = CHR ''/'') p) = Inl err" and "err = OSError \<or> err = ValueError"
    and "dropWhile (\<lambda>c. c = CHR ''/'') p \<noteq> []"
  shows "is_safe_path fs p = Inr False"
proof -
  let ?clean = "dropWhile (\<lambda>c. c = CHR ''/'') p"
  from assms(3) have p: "p \<noteq> ''/''" "p \<noteq> []" by auto
  have "is_safe_path_body fs p = Inr False \<or> is_safe_path_body fs p = Inl err"
    using assms(1,3) p by (simp add: is_safe_path_body_def Let_def path_exists_def)
  with assms(2) show ?thesis by (auto simp: is_safe_path_def)
qed

text \<open>
  C3. The path check applied to the decoded request path returns False for
  \<^verbatim>\<open>/../etc/passwd\<close>, for \<^verbatim>\<open>/a/../../b\<close> and for \<^verbatim>\<open>/%2e%2e/secret\<close>; and whenever a
  segment of the decoded path (its parts between slashes) is \<^verbatim>\<open>..\<close> or another entry of
  \<^verbatim>\<open>BLOCKED_PATHS\<close>, the check returns False, whatever the file system holds.
\<close>

theorem traversal_denied:
  "isSafe e ''/../etc/passwd'' = Inr False \<and>
   isSafe e ''/a/../../b'' = Inr False \<and>
   isSafe e ''/%2e%2e/secret'' = Inr False \<and>
   (\<forall>raw p seg. clean_path_of (netloc_ok e) raw = Inr p \<and> seg \<in> set (split_on CHR ''/'' p) \<and>
        (seg = ''..'' \<or> seg \<in> set BLOCKED_PATHS) \<longrightarrow> isSafe e raw = Inr False) \<and>
   (\<forall>fs p seg. seg \<in> set (split_on CHR ''/'' p) \<and> (seg = ''..'' \<or> seg \<in> set BLOCKED_PATHS)
        \<longrightarrow> is_safe_path fs p = Inr False)"
proof -
  have gen: "is_safe_path fs p = Inr False"
    if "seg \<in> set (split_on CHR ''/'' p)" and "seg = ''..'' \<or> seg \<in> set BLOCKED_PATHS" for fs p seg
  proof -
    from that(2) dotdot_blocked have "seg \<in> set BLOCKED_PATHS" by auto
    with that(1) show ?thesis by (rule is_safe_path_blocked_segment)
  qed
  have raw: "isSafe e raw = Inr False"
    if "clean_path_of (netloc_ok e) raw = Inr p" and "seg \<in> set (split_on CHR ''/'' p)"
      and "seg = ''..'' \<or> seg \<in> set BLOCKED_PATHS" for raw p seg
    using gen [OF that(2,3), of "stat e"] that(1) by (simp add: isSafe_def)
  have a: "isSafe e ''/../etc/passwd'' = Inr False"
    by (rule raw [OF clean_paths(1), of "''..''"]) simp_all
  have b: "isSafe e ''/a/../../b'' = Inr False"
    by (rule raw [OF clean_paths(2), of "''..''"]) simp_all
  have c: "isSafe e ''/%2e%2e/secret'' = Inr False"
    by (rule raw [OF clean_paths(3), of "''..''"]) simp_all
  from a b c raw gen show ?thesis by blast
qed

theorem traversal_denied_witness:
  "clean_path_of (netloc_ok site_env) ''/static/%2Egit/config?x=1'' = Inr ''/static/.git/config'' \<and>
   ''.git'' \<in> set (split_on CHR ''/'' ''/static/.git/config'') \<and>
   ''.git'' \<in> set BLOCKED_PATHS \<and>
   isSafe site_env ''/static/%2Egit/config?x=1'' = Inr False"
proof -
  have d: "clean_path_of (netloc_ok site_env) ''/static/%2Egit/config?x=1'' = Inr ''/static/.git/config''"
    by (simp add: clean_path_of_def urlparse_path_def split_scheme_def split_params_def
          uses_params_def hex_value_def Let_def char_of_eq_iff)
  have s: "''.git'' \<in> set (split_on CHR ''/'' ''/static/.git/config'')" by simp
  have b: "''.git'' \<in> set BLOCKED_PATHS" by (simp add: BLOCKED_PATHS_def)
  from traversal_denied [of site_env] d s b
  have "isSafe site_env ''/static/%2Egit/config?x=1'' = Inr False" by blast
  with d s b show ?thesis by simp
qed

text \<open>
  C4. A path whose file exists as a regular file with a non-empty extension (lower-cased)
  outside \<^verbatim>\<open>ALLOWED_EXTENSIONS\<close> is denied. A path that is no existing regular file
  (nothing there, or a directory) and has no blocked segment is allowed, so that the
  file-serving base class produces the not-found answer. An existing \<^verbatim>\<open>config.env\<close> or
  \<^verbatim>\<open>server.py\<close> is denied, an existing \<^verbatim>\<open>style.css\<close> or \<^verbatim>\<open>logo.png\<close> is allowed.
\<close>

theorem extension_allowlist:
  "(\<forall>fs p. fs (dropWhile (\<lambda>c. c = CHR ''/'') p) = Inr RegularFile \<and>
       lower (path_suffix (dropWhile (\<lambda>c. c = CHR ''/'') p)) \<noteq> [] \<and>
       lower (path_suffix (dropWhile (\<lambda>c. c = CHR ''/'') p)) \<notin> set ALLOWED_EXTENSIONS
       \<longrightarrow> is_safe_path fs p = Inr False) \<and>
   (\<forall>fs p. (fs (dropWhile (\<lambda>c. c = CHR ''/'') p) = Inr Missing \<or>
             fs (dropWhile (\<lambda>c. c = CHR ''/'') p) = Inr OtherKind) \<and>
       (\<forall>seg \<in> set (split_on CHR ''/'' p). seg \<notin> set BLOCKED_PATHS)
       \<longrightarrow> is_safe_path fs p = Inr True) \<and>
   (\<forall>fs. fs ''config.env'' = Inr RegularFile \<longrightarrow> is_safe_path fs ''/config.env'' = Inr False) \<and>
   (\<forall>fs. fs ''server.py'' = Inr RegularFile \<longrightarrow> is_safe_path fs ''/server.py'' = Inr False) \<and>
   (\<forall>fs. fs ''style.css'' = Inr RegularFile \<longrightarrow> is_safe_path fs ''/style.css'' = Inr True) \<and>
   (\<forall>fs. fs ''logo.png'' = Inr RegularFile \<longrightarrow> is_safe_path fs ''/logo.png'' = Inr True)"
proof -
  have deny: "is_safe_path fs p = Inr False"
    if "fs (dropWhile (\<lambda>c. c = CHR ''/'') p) = Inr RegularFile"
      and "lower (path_suffix (dropWhile (\<lambda>c. c = CHR ''/'') p)) \<noteq> []"
      and "lower (path_suffix (dropWhile (\<lambda>c. c = CHR ''/'') p)) \<notin> set ALLOWED_EXTENSIONS"
    for fs p
    using that by (rule is_safe_path_disallowed_file)
  have allow: "is_safe_path fs p = Inr True"
    if "fs (dropWhile (\<lambda>c. c = CHR ''/'') p) = Inr Missing \<or>
        fs (dropWhile (\<lambda>c. c = CHR ''/'') p) = Inr OtherKind"
      and "\<forall>seg \<in> set (split_on CHR ''/'' p). seg \<notin> set BLOCKED_PATHS" for fs p
    using that is_safe_path_no_file [of fs p Missing] is_safe_path_no_file [of fs p OtherKind]
    by auto
  have env: "is_safe_path fs ''/config.env'' = Inr False" if "fs ''config.env'' = Inr RegularFile" for fs
    by (rule deny) (simp_all add: that path_suffix_lit lower_lit ALLOWED_EXTENSIONS_def)
  have py: "is_safe_path fs ''/server.py'' = Inr False" if "fs ''server.py'' = Inr RegularFile" for fs
    by (rule deny) (simp_all add: that path_suffix_lit lower_lit ALLOWED_EXTENSIONS_def)
  have css: "is_safe_path fs ''/style.css'' = Inr True" if "fs ''style.css'' = Inr RegularFile" for fs
    by (rule is_safe_path_allowed_file [where k = RegularFile])
      (simp_all add: that path_suffix_lit lower_lit ALLOWED_EXTENSIONS_def BLOCKED_PATHS_def)
  have png: "is_safe_path fs ''/logo.png'' = Inr True" if "fs ''logo.png'' = Inr RegularFile" for fs
    by (rule is_safe_path_allowed_file [where k = RegularFile])
      (simp_all add: that path_suffix_lit lower_lit ALLOWED_EXTENSIONS_def BLOCKED_PATHS_def)
  from deny allow env py css png show ?thesis by blast
qed

theorem extension_allowlist_witness:
  "site_files ''config.env'' = Inr RegularFile \<and> is_safe_path site_files ''/config.env'' = Inr False \<and>
   site_files ''server.py'' = Inr RegularFile \<and> is_safe_path site_files ''/server.py'' = Inr False \<and>
   site_files ''style.css'' = Inr RegularFile \<and> is_safe_path site_files ''/style.css'' = Inr True \<and>
   site_files ''logo.png'' = Inr RegularFile \<and> is_safe_path site_files ''/logo.png'' = Inr True \<and>
   site_files ''missing.env'' = Inr Missing \<and> is_safe_path site_files ''/missing.env'' = Inr True \<and>
   site_files ''assets'' = Inr OtherKind \<and> is_safe_path site_files ''/assets'' = Inr True"
proof -
  have f: "site_files ''config.env'' = Inr RegularFile" "site_files ''server.py'' = Inr RegularFile"
    "site_files ''style.css'' = Inr RegularFile" "site_files ''logo.png'' = Inr RegularFile"
    "site_files ''missing.env'' = Inr Missing" "site_files ''assets'' = Inr OtherKind"
    by (simp_all add: site_files_def)
  have seg: "\<forall>seg \<in> set (split_on CHR ''/'' ''/missing.env''). seg \<notin> set BLOCKED_PATHS"
    "\<forall>seg \<in> set (split_on CHR ''/'' ''/assets''). seg \<notin> set BLOCKED_PATHS"
    by (simp_all add: BLOCKED_PATHS_def)
  note main = extension_allowlist
  from main f(1) have a: "is_safe_path site_files ''/config.env'' = Inr False" by blast
  from main f(2) have b: "is_safe_path site_files ''/server.py'' = Inr False" by blast
  from main f(3) have c: "is_safe_path site_files ''/style.css'' = Inr True" by blast
  from main f(4) have d: "is_safe_path site_files ''/logo.png'' = Inr True" by blast
  from main have allow: "\<And>fs p. (fs (dropWhile (\<lambda>c. c = CHR ''/'') p) = Inr Missing \<or>
             fs (dropWhile (\<lambda>c. c = CHR ''/'') p) = Inr OtherKind) \<Longrightarrow>
       (\<forall>seg \<in> set (split_on CHR ''/'' p). seg \<notin> set BLOCKED_PATHS)
       \<Longrightarrow> is_safe_path fs p = Inr True" by blast
  have g: "is_safe_path site_files ''/missing.env'' = Inr True"
    by (rule allow) (simp_all add: f seg)
  have h: "is_safe_path site_files ''/assets'' = Inr True"
    by (rule allow) (simp_all add: f seg)
  from f a b c d g h show ?thesis by simp
qed

text \<open>
  C8. When the file system fails only with OSError or ValueError (permission denied,
  invalid path), \<^verbatim>\<open>is_safe_path\<close> returns True or False for every path and never raises;
  an error raised while the path is evaluated becomes the answer False.
\<close>

theorem is_safe_path_never_raises:
  assumes "\<forall>q err. fs q = Inl err \<longrightarrow> err = OSError \<or> err = ValueError"
  shows "(\<exists>b. is_safe_path fs p = Inr b) \<and>
         (\<forall>err. is_safe_path_body fs p = Inl err \<longrightarrow> is_safe_path fs p = Inr False) \<and>
         (\<forall>err. fs (dropWhile (\<lambda>c. c = CHR ''/'') p) = Inl err \<and>
                dropWhile (\<lambda>c. c = CHR ''/'') p \<noteq> [] \<longrightarrow> is_safe_path fs p = Inr False)"
proof -
  have total: "\<exists>b. is_safe_path fs p = Inr b" using assms by (rule is_safe_path_total)
  have body: "is_safe_path fs p = Inr False" if "is_safe_path_body fs p = Inl err" for err
  proof -
    from total obtain b where b: "is_safe_path fs p = Inr b" by blast
    with that show ?thesis by (cases err) (simp_all add: is_safe_path_def)
  qed
  have probe: "is_safe_path fs p = Inr False"
    if "fs (dropWhile (\<lambda>c. c = CHR ''/'') p) = Inl err" and "dropWhile (\<lambda>c. c = CHR ''/'') p \<noteq> []"
    for err
    using that(1) _ that(2)
  proof (rule is_safe_path_fs_error)
    from assms that(1) show "err = OSError \<or> err = ValueError" by blast
  qed
  from total body probe show ?thesis by blast
qed

theorem is_safe_path_never_raises_witness:
  "site_files ''private'' = Inl OSError \<and>
   is_safe_path_body site_files ''/private'' = Inl OSError \<and>
   is_safe_path site_files ''/private'' = Inr False"
proof -
  have h: "\<forall>q err. site_files q = Inl err \<longrightarrow> err = OSError \<or> err = ValueError"
    by (auto simp: site_files_def split: if_splits)
  have f: "site_files ''private'' = Inl OSError" by (simp add: site_files_def)
  have b: "is_safe_path_body site_files ''/private'' = Inl OSError"
    by (simp add: is_safe_path_body_def Let_def path_exists_def f BLOCKED_PATHS_def)
  from is_safe_path_never_raises [OF h, of "''/private''"] b
  have "is_safe_path site_files ''/private'' = Inr False" by blast
  with f b show ?thesis by blast
qed

section \<open>Evaluating the handlers\<close>

lemma py_format_logs:
  "py_format ''GET /%2e%2e/secret'' = Inl TypeError"
  "py_format ''SECURITY: Blocked unsafe path access: /%2e%2e/secret'' = Inl TypeError"
  "py_format ''POST /a%20b'' = Inl TypeError"
  by (simp_all add: directive_error_def directive_prec_def directive_conv_def is_flag_def
        is_digit_def)

lemma rate_limit_check_initial:
  "rate_limit_check r now initial_server =
     (initial_server\<lparr>request_counts := [client_ip r \<mapsto> [now]]\<rparr>, None)"
  by (simp add: rate_limit_check_def initial_server_def Let_def RATE_LIMIT_MAX_REQUESTS_def)

lemma sanitize_headers_plain: "sanitize_headers (plain_request p) s = (s, None)"
  by (simp add: sanitize_headers_def plain_request_def)

lemma py_int_error: "py_int cl = Inl err \<Longrightarrow> err = ValueError"
  by (auto simp: py_int_def int_digits_def split: list.splits if_splits sum.splits)

lemma py_int_example: "py_int ''10485761'' = Inr 10485761"
  by (simp add: py_int_def strip_def is_space_def int_digits_def is_digit_def)

lemma send_error_413:
  "\<exists>s'. send_error r 413 ''Request entity too large'' s
          = (s', error_response r 413 ''Request entity too large'') \<and>
        shutdown_started s' = shutdown_started s \<and> same_limits s s'"
proof -
  from send_error_plain [of "''Request entity too large''" r 413 s]
  obtain s' where se: "send_error r 413 ''Request entity too large'' s
          = (s', error_response r 413 ''Request entity too large'')"
    by (auto simp: error_response_def)
  from send_error_frame [OF se] send_error_limits [OF se] se show ?thesis by auto
qed

lemma send_error_400:
  assumes "CHR ''%'' \<notin> set msg"
  shows "\<exists>s'. send_error r 400 msg s = (s', error_response r 400 msg) \<and>
        shutdown_started s' = shutdown_started s \<and> same_limits s s'"
proof -
  from send_error_plain [OF assms, of r 400 s]
  obtain s' where se: "send_error r 400 msg s = (s', error_response r 400 msg)"
    by (auto simp: error_response_def)
  from send_error_frame [OF se] send_error_limits [OF se] se show ?thesis by auto
qed

lemma send_error_405:
  "\<exists>s'. send_error r 405 ''Method Not Allowed'' s
          = (s', error_response r 405 ''Method Not Allowed'') \<and>
        shutdown_started s' = shutdown_started s \<and> same_limits s s'"
proof -
  from send_error_plain [of "''Method Not Allowed''" r 405 s]
  obtain s' where se: "send_error r 405 ''Method Not Allowed'' s
          = (s', error_response r 405 ''Method Not Allowed'')"
    by (auto simp: error_response_def)
  from send_error_frame [OF se] send_error_limits [OF se] se show ?thesis by auto
qed

lemma sanitize_headers_too_large:
  assumes "content_length r = Some cl" and "cl \<noteq> []" and "py_int cl = Inr n"
    and "n > MAX_CONTENT_LENGTH"
  shows "\<exists>s'. sanitize_headers r s = (s', Some (error_response r 413 ''Request entity too large''))
           \<and> shutdown_started s' = shutdown_started s \<and> same_limits s s'"
proof -
  from send_error_413 [of r s] obtain s' where
    se: "send_error r 413 ''Request entity too large'' s
          = (s', error_response r 413 ''Request entity too large'')"
    and fr: "shutdown_started s' = shutdown_started s" "same_limits s s'" by blast
  from assms se have "sanitize_headers r s = (s', Some (error_response r 413 ''Request entity too large''))"
    by (simp add: sanitize_headers_def error_response_def)
  with fr show ?thesis by simp
qed

lemma sanitize_headers_invalid:
  assumes "content_length r = Some cl" and "cl \<noteq> []" and "py_int cl = Inl err"
  shows "\<exists>s'. sanitize_headers r s = (s', Some (error_response r 400 ''Invalid Content-Length''))
           \<and> shutdown_started s' = shutdown_started s \<and> same_limits s s'"
proof -
  from assms(3) have err: "err = ValueError" by (rule py_int_error)
  from send_error_400 [of "''Invalid Content-Length''" r s] obtain s' where
    se: "send_error r 400 ''Invalid Content-Length'' s
          = (s', error_response r 400 ''Invalid Content-Length'')"
    and fr: "shutdown_started s' = shutdown_started s" "same_limits s s'" by auto
  from assms err se have "sanitize_headers r s = (s', Some (error_response r 400 ''Invalid Content-Length''))"
    by (simp add: sanitize_headers_def)
  with fr show ?thesis by simp
qed

lemma sanitize_headers_user_agent:
  assumes "content_length_ok r" and "\<not> user_agent_ok r"
  shows "\<exists>s'. sanitize_headers r s = (s', Some (error_response r 400 ''Invalid User-Agent''))
           \<and> shutdown_started s' = shutdown_started s \<and> same_limits s s'"
proof -
  from send_error_400 [of "''Invalid User-Agent''" r s] obtain s' where
    se: "send_error r 400 ''Invalid User-Agent'' s
          = (s', error_response r 400 ''Invalid User-Agent'')"
    and fr: "shutdown_started s' = shutdown_started s" "same_limits s s'" by auto
  from assms(2) obtain ua where ua: "user_agent r = Some ua" "length ua > 500"
    by (auto simp: user_agent_ok_def split: option.splits)
  from assms(1) ua se have "sanitize_headers r s = (s', Some (error_response r 400 ''Invalid User-Agent''))"
    by (auto simp: sanitize_headers_def content_length_ok_def split: option.splits sum.splits)
  with fr show ?thesis by simp
qed

lemma sanitize_headers_ok:
  assumes "content_length_ok r" and "user_agent_ok r"
  shows "sanitize_headers r s = (s, None)"
  using assms
  by (auto simp: sanitize_headers_def content_length_ok_def user_agent_ok_def
        split: option.splits sum.splits)

lemma handle_stops_at_headers:
  assumes "m \<noteq> OPTIONS" and "rate_limit_check r now s = (s1, None)"
    and "sanitize_headers r s1 = (s2, Some out)"
  shows "handle e m r now s = (s2, out)"
  using assms by (cases m) (simp_all add: handle_def do_GET_def do_POST_def)

lemma rate_limit_check_pass_shutdown:
  "rate_limit_check r now s = (s1, None) \<Longrightarrow> shutdown_started s1 = shutdown_started s"
  by (auto simp: rate_limit_check_def Let_def split: if_splits sum.splits prod.splits)


section \<open>Response headers\<close>















section \<open>Header limits\<close>

text \<open>
  An OPTIONS request that announces 10485761 bytes, one more than
  \<^verbatim>\<open>MAX_CONTENT_LENGTH\<close>, passes the rate-limit check and is answered 200:
  \<^verbatim>\<open>do_OPTIONS\<close> does not call \<^verbatim>\<open>sanitize_headers\<close>.
\<close>

theorem options_skips_header_checks:
  "snd (rate_limit_check (oversized_request ''/'') 0 initial_server) = None \<and>
   content_length (oversized_request ''/'') = Some ''10485761'' \<and>
   py_int ''10485761'' = Inr 10485761 \<and> (10485761 :: int) > MAX_CONTENT_LENGTH \<and>
   snd (handle quiet_env OPTIONS (oversized_request ''/'') 0 initial_server) =
     Responded \<lparr>status = 200, message = None, headers = end_headers (oversized_request ''/''),
                body = []\<rparr>"
  by (simp add: rate_limit_check_initial oversized_request_def py_int_example
        MAX_CONTENT_LENGTH_def handle_def do_OPTIONS_def send_response_def)

text \<open>
  C6. After the rate-limit check has passed, GET and POST validate the headers before
  anything else: a Content-Length that is present, not empty and reads as more than
  \<^verbatim>\<open>MAX_CONTENT_LENGTH\<close> gives 413, one that does not read as an integer gives 400,
  and otherwise a User-Agent of more than 500 characters gives 400. In each case the
  handler ends there: the shutdown flag, \<^verbatim>\<open>request_counts\<close> and \<^verbatim>\<open>blocked_ips\<close> are as
  the rate-limit check left them. Headers within the limits let the request through.
  OPTIONS validates no header: it answers 200 after the rate-limit check alone.
\<close>

theorem header_checks:
  assumes "rate_limit_check r now s = (s1, None)"
  shows "(m \<noteq> OPTIONS \<longrightarrow>
            (\<forall>cl n. content_length r = Some cl \<and> cl \<noteq> [] \<and> py_int cl = Inr n \<and>
                    n > MAX_CONTENT_LENGTH \<longrightarrow>
               snd (handle e m r now s) = error_response r 413 ''Request entity too large'') \<and>
            (\<forall>cl err. content_length r = Some cl \<and> cl \<noteq> [] \<and> py_int cl = Inl err \<longrightarrow>
               snd (handle e m r now s) = error_response r 400 ''Invalid Content-Length'') \<and>
            (content_length_ok r \<and> \<not> user_agent_ok r \<longrightarrow>
               snd (handle e m r now s) = error_response r 400 ''Invalid User-Agent'') \<and>
            (\<not> content_length_ok r \<or> \<not> user_agent_ok r \<longrightarrow>
               shutdown_started (fst (handle e m r now s)) = shutdown_started s \<and>
               same_limits s1 (fst (handle e m r now s))) \<and>
            (content_length_ok r \<and> user_agent_ok r \<longrightarrow> sanitize_headers r s1 = (s1, None))) \<and>
         (m = OPTIONS \<longrightarrow> handle e m r now s = (s1, send_response r 200 [] []))"
proof -
  note sh = rate_limit_check_pass_shutdown [OF assms]
  have stop: "snd (handle e m r now s) = out \<and>
              shutdown_started (fst (handle e m r now s)) = shutdown_started s \<and>
              same_limits s1 (fst (handle e m r now s))"
    if "m \<noteq> OPTIONS"
      and "\<exists>s'. sanitize_headers r s1 = (s', Some out) \<and>
             shutdown_started s' = shutdown_started s1 \<and> same_limits s1 s'" for out
  proof -
    from that(2) obtain s' where s': "sanitize_headers r s1 = (s', Some out)"
      "shutdown_started s' = shutdown_started s1" "same_limits s1 s'" by blast
    from handle_stops_at_headers [OF that(1) assms s'(1), of e] s'(2,3) sh
    show ?thesis by simp
  qed
  have a: "snd (handle e m r now s) = error_response r 413 ''Request entity too large'' \<and>
           shutdown_started (fst (handle e m r now s)) = shutdown_started s \<and>
           same_limits s1 (fst (handle e m r now s))"
    if "m \<noteq> OPTIONS" "content_length r = Some cl" "cl \<noteq> []" "py_int cl = Inr n"
       "n > MAX_CONTENT_LENGTH" for cl n
    using that(1) sanitize_headers_too_large [OF that(2-5), of s1] by (rule stop)
  have b: "snd (handle e m r now s) = error_response r 400 ''Invalid Content-Length'' \<and>
           shutdown_started (fst (handle e m r now s)) = shutdown_started s \<and>
           same_limits s1 (fst (handle e m r now s))"
    if "m \<noteq> OPTIONS" "content_length r = Some cl" "cl \<noteq> []" "py_int cl = Inl err" for cl err
    using that(1) sanitize_headers_invalid [OF that(2-4), of s1] by (rule stop)
  have c: "snd (handle e m r now s) = error_response r 400 ''Invalid User-Agent'' \<and>
           shutdown_started (fst (handle e m r now s)) = shutdown_started s \<and>
           same_limits s1 (fst (handle e m r now s))"
    if "m \<noteq> OPTIONS" "content_length_ok r" "\<not> user_agent_ok r"
    using that(1) sanitize_headers_user_agent [OF that(2,3), of s1] by (rule stop)
  have d: "shutdown_started (fst (handle e m r now s)) = shutdown_started s \<and>
           same_limits s1 (fst (handle e m r now s))"
    if "m \<noteq> OPTIONS" "\<not> content_length_ok r \<or> \<not> user_agent_ok r"
  proof (cases "content_length_ok r")
    case True
    with that c show ?thesis by blast
  next
    case False
    then obtain cl where cl: "content_length r = Some cl" "cl \<noteq> []"
      by (auto simp: content_length_ok_def split: option.splits)
    show ?thesis
    proof (cases "py_int cl")
      case (Inl err)
      with that(1) cl b show ?thesis by blast
    next
      case (Inr n)
      with False cl have "n > MAX_CONTENT_LENGTH" by (simp add: content_length_ok_def)
      with that(1) cl Inr a show ?thesis by blast
    qed
  qed
  have f: "sanitize_headers r s1 = (s1, None)" if "content_length_ok r" "user_agent_ok r"
    using that by (rule sanitize_headers_ok)
  have g: "handle e m r now s = (s1, send_response r 200 [] [])" if "m = OPTIONS"
    using that assms by (simp add: handle_def do_OPTIONS_def)
  from a b c d f g show ?thesis by blast
qed

theorem header_checks_witness:
  "rate_limit_check (oversized_request ''/shutdown'') 0 initial_server =
     (initial_server\<lparr>request_counts := [''10.0.0.2'' \<mapsto> [0]]\<rparr>, None) \<and>
   content_length (oversized_request ''/shutdown'') = Some ''10485761'' \<and>
   py_int ''10485761'' = Inr 10485761 \<and> (10485761 :: int) > MAX_CONTENT_LENGTH \<and>
   snd (handle site_env GET (oversized_request ''/shutdown'') 0 initial_server) =
     error_response (oversized_request ''/shutdown'') 413 ''Request entity too large'' \<and>
   shutdown_started (fst (handle site_env GET (oversized_request ''/shutdown'') 0 initial_server))
     = False"
proof -
  let ?r = "oversized_request ''/shutdown''"
  have rl: "rate_limit_check ?r 0 initial_server =
     (initial_server\<lparr>request_counts := [''10.0.0.2'' \<mapsto> [0]]\<rparr>, None)"
    by (simp add: rate_limit_check_initial oversized_request_def)
  have cl: "content_length ?r = Some ''10485761''" by (simp add: oversized_request_def)
  have big: "(10485761 :: int) > MAX_CONTENT_LENGTH" by (simp add: MAX_CONTENT_LENGTH_def)
  have m: "GET \<noteq> OPTIONS" by simp
  have nok: "\<not> content_length_ok ?r"
    by (simp add: content_length_ok_def cl py_int_example MAX_CONTENT_LENGTH_def)
  note main = header_checks [OF rl, of GET site_env]
  from main m cl py_int_example big
  have r1: "snd (handle site_env GET ?r 0 initial_server) =
     error_response ?r 413 ''Request entity too large''" by blast
  from main m nok
  have "shutdown_started (fst (handle site_env GET ?r 0 initial_server))
          = shutdown_started initial_server" by blast
  then have r2: "shutdown_started (fst (handle site_env GET ?r 0 initial_server)) = False"
    by (simp add: initial_server_def)
  from rl cl py_int_example big r1 r2 show ?thesis by simp
qed

section \<open>Request paths with a percent sign\<close>

text \<open>
  For a request path without a percent sign the POST handler does what its comment says:
  405, no shutdown, and no change to the rate limiter's state after the check.
\<close>

lemma post_plain_path_405:
  assumes "rate_limit_check r now s = (s1, None)" and "content_length_ok r" and "user_agent_ok r"
    and "CHR ''%'' \<notin> set (path r)"
  shows "snd (handle e POST r now s) = error_response r 405 ''Method Not Allowed'' \<and>
         shutdown_started (fst (handle e POST r now s)) = shutdown_started s \<and>
         same_limits s1 (fst (handle e POST r now s))"
proof -
  let ?s2 = "s1\<lparr>log := log s1 @ [(client_ip r, ''POST '' @ path r)]\<rparr>"
  have lg: "log_message r (''POST '' @ path r) s1 = Inr ?s2"
    using assms(4) by (intro log_message_plain) simp
  from send_error_405 [of r ?s2] obtain s3 where
    se: "send_error r 405 ''Method Not Allowed'' ?s2 = (s3, error_response r 405 ''Method Not Allowed'')"
    and fr: "shutdown_started s3 = shutdown_started ?s2" "same_limits ?s2 s3" by blast
  have "handle e POST r now s = (s3, error_response r 405 ''Method Not Allowed'')"
    using assms(1) sanitize_headers_ok [OF assms(2,3), of s1] lg se
    by (simp add: handle_def do_POST_def)
  with fr rate_limit_check_pass_shutdown [OF assms(1)] show ?thesis
    by (simp add: same_limits_def)
qed

text \<open>
  C9. A POST to \<^verbatim>\<open>/a%20b\<close> from a client that is not banned, without Content-Length and
  User-Agent, passes both checks; then \<^verbatim>\<open>log_message\<close> is given the text
  \<^verbatim>\<open>POST /a%20b\<close> as format and raises TypeError, so the handler ends without sending
  405 or any other response.
\<close>

theorem post_percent_path_unhandled:
  "snd (rate_limit_check (plain_request ''/a%20b'') now initial_server) = None \<and>
   snd (sanitize_headers (plain_request ''/a%20b'')
          (fst (rate_limit_check (plain_request ''/a%20b'') now initial_server))) = None \<and>
   snd (handle e POST (plain_request ''/a%20b'') now initial_server) = Unhandled TypeError"
proof -
  have p: "path (plain_request ''/a%20b'') = ''/a%20b''" by (simp add: plain_request_def)
  have "snd (do_POST (plain_request ''/a%20b'') now initial_server) = Unhandled TypeError"
    by (simp add: do_POST_def rate_limit_check_initial sanitize_headers_plain log_message_def p
          directive_error_def directive_prec_def directive_conv_def is_flag_def is_digit_def)
  then show ?thesis
    by (simp add: handle_def rate_limit_check_initial sanitize_headers_plain)
qed

text \<open>
  C10. The request path \<^verbatim>\<open>/%252e%252e/secret\<close> is decoded once, to
  \<^verbatim>\<open>/%2e%2e/secret\<close>, and the path check finds it safe where the file system raises
  nothing. Whatever the environment, the GET handler then ends with TypeError, raised by
  \<^verbatim>\<open>log_message\<close> on a format that contains \<^verbatim>\<open>%2e\<close>: the request does not reach the
  file-serving base class.
\<close>

theorem double_encoded_unhandled:
  "clean_path_of (netloc_ok e) ''/%252e%252e/secret'' = Inr ''/%2e%2e/secret'' \<and>
   isSafe quiet_env ''/%252e%252e/secret'' = Inr True \<and>
   snd (handle e GET (plain_request ''/%252e%252e/secret'') now initial_server) = Unhandled TypeError"
proof -
  let ?r = "plain_request ''/%252e%252e/secret''"
  have p: "path ?r = ''/%252e%252e/secret''" by (simp add: plain_request_def)
  have cp: "clean_path_of ok ''/%252e%252e/secret'' = Inr ''/%2e%2e/secret''" for ok
    by (rule clean_paths(4))
  have seg: "\<forall>seg \<in> set (split_on CHR ''/'' ''/%2e%2e/secret''). seg \<notin> set BLOCKED_PATHS"
    by (simp add: BLOCKED_PATHS_def)
  have body: "is_safe_path_body fs ''/%2e%2e/secret'' =
      (case fs ''%2e%2e/secret'' of Inl err \<Rightarrow> Inl err | Inr k \<Rightarrow> Inr True)" for fs
    by (simp add: is_safe_path_body_def Let_def BLOCKED_PATHS_def path_exists_def path_is_file_def
          path_suffix_lit lower_def split: sum.splits)
  have safe: "isSafe quiet_env ''/%252e%252e/secret'' = Inr True"
    by (simp add: isSafe_def cp is_safe_path_def body quiet_env_def)
  have chk: "is_safe_path (stat e) ''/%2e%2e/secret'' = Inl TypeError \<or>
             (\<exists>b. is_safe_path (stat e) ''/%2e%2e/secret'' = Inr b)"
    by (auto simp: is_safe_path_def body split: sum.splits py_error.splits)
  have ne: "''/%2e%2e/secret'' \<noteq> ''/shutdown''" by simp
  have lg: "log_message ?r ''GET /%2e%2e/secret'' s = Inl TypeError"
    "log_message ?r ''SECURITY: Blocked unsafe path access: /%2e%2e/secret'' s = Inl TypeError" for s
    by (simp_all only: log_message_def py_format_logs sum.case)
  have "snd (do_GET e ?r now initial_server) = Unhandled TypeError"
  proof (cases "is_safe_path (stat e) ''/%2e%2e/secret''")
    case (Inl err)
    with chk have "err = TypeError" by simp
    with Inl show ?thesis
      by (simp add: do_GET_def rate_limit_check_initial sanitize_headers_plain p cp)
  next
    case (Inr b)
    then show ?thesis
      by (cases b)
        (simp_all add: do_GET_def rate_limit_check_initial sanitize_headers_plain p cp lg)
  qed
  with cp safe show ?thesis by (simp add: handle_def)
qed

end
